theory Spec2Isabelle
  imports Main
begin

section \<open>Strings of the editor\<close>

text \<open>
  A document and every string taken from it is a list of code units. Line breaks inside a
  document are the single code unit 0x0A, as the editor's text buffer counts them.
  The string built-ins the highlighters call are written out for code units below 256.
  Offsets into the document are natural numbers; the numbers of the configuration
  (lengths, caps and delays) are integers, since nothing keeps them from being negative.
\<close>

definition isSpaceChar :: "char \<Rightarrow> bool" where
  "isSpaceChar c = (of_char c \<in> {9::nat, 10, 11, 12, 13, 32, 160})"

text \<open>\<open>String.prototype.trim\<close>: white space is stripped from both ends.\<close>

definition trim :: "string \<Rightarrow> string" where
  "trim s = rev (dropWhile isSpaceChar (rev (dropWhile isSpaceChar s)))"

definition toLowerChar :: "char \<Rightarrow> char" where
  "toLowerChar c =
     (let n = (of_char c :: nat)
      in if (65 \<le> n \<and> n \<le> 90) \<or> (192 \<le> n \<and> n \<le> 222 \<and> n \<noteq> 215)
         then char_of (n + 32) else c)"

text \<open>\<open>String.prototype.toLowerCase\<close>.\<close>

definition toLowerCase :: "string \<Rightarrow> string" where
  "toLowerCase s = map toLowerChar s"

text \<open>\<open>s.split(sep)\<close> for a one-character separator: the empty string gives one empty piece.\<close>

fun split_on :: "char \<Rightarrow> string \<Rightarrow> string list" where
  "split_on sep [] = [[]]"
| "split_on sep (c # cs) =
     (if c = sep then [] # split_on sep cs
      else (case split_on sep cs of
              [] \<Rightarrow> [[c]]
            | p # ps \<Rightarrow> (c # p) # ps))"

text \<open>\<open>state.sliceDoc(from, to)\<close>: the text between two offsets, clipped to the document.\<close>

definition sliceDoc :: "string \<Rightarrow> nat \<Rightarrow> nat \<Rightarrow> string" where
  "sliceDoc doc f t = take (t - f) (drop f doc)"

section \<open>Decorations\<close>

datatype Decoration =
    Mark string "(string \<times> string) list option"
  | Line "(string \<times> string) list"
  | Widget string

text \<open>A \<open>Range<Decoration>\<close>: what \<open>decoration.range(from, to)\<close> returns.\<close>

record DecoRange =
  from_pos :: nat
  to_pos :: nat
  deco :: Decoration

definition mkRange :: "Decoration \<Rightarrow> nat \<Rightarrow> nat \<Rightarrow> DecoRange" where
  "mkRange d f t = \<lparr>from_pos = f, to_pos = t, deco = d\<rparr>"

section \<open>The selection highlighter\<close>

datatype CharCategory = Word | Space | Other

record SelectionRange =
  sel_from :: nat
  sel_to :: nat
  sel_head :: nat

definition sel_empty :: "SelectionRange \<Rightarrow> bool" where
  "sel_empty r = (sel_from r = sel_to r)"

record EditorSelection =
  ranges :: "SelectionRange list"
  main :: SelectionRange

record SelectionHighlightOptions =
  highlightWordAroundCursor :: bool
  highlightSelectedText :: bool
  minSelectionLength :: int
  maxMatches :: int
  ignoredWords :: string
  highlightDelay :: int

definition defaultHighlightOptions :: "string \<Rightarrow> SelectionHighlightOptions" where
  "defaultHighlightOptions ws =
     \<lparr>highlightWordAroundCursor = True, highlightSelectedText = True,
      minSelectionLength = 3, maxMatches = 100, ignoredWords = ws, highlightDelay = 0\<rparr>"

text \<open>
  What the plugin reads from an \<open>EditorView\<close>: the document, the selection, the visible
  ranges (pairs \<open>(from, to)\<close>) and the value of the \<open>highlightConfig\<close> facet.
\<close>

record EditorView =
  doc :: string
  selection :: EditorSelection
  visibleRanges :: "(nat \<times> nat) list"
  highlightConfig :: SelectionHighlightOptions

text \<open>
  The primitives of the host editor that \<open>getDeco\<close> calls. They are parameters of the
  model: \<open>wordAt\<close> is \<open>state.wordAt(pos)\<close>, \<open>charCategorizer\<close> is
  \<open>state.charCategorizer(pos)\<close>, and \<open>SearchCursor doc query from to normalize\<close> is the
  sequence of values \<open>{from, to}\<close> that \<open>new SearchCursor(doc, query, from, to, normalize)\<close>
  yields through repeated \<open>next()\<close> until \<open>done\<close>.
\<close>

record Host =
  wordAt :: "string \<Rightarrow> nat \<Rightarrow> (nat \<times> nat) option"
  charCategorizer :: "nat \<Rightarrow> string \<Rightarrow> CharCategory"
  SearchCursor :: "string \<Rightarrow> string \<Rightarrow> nat \<Rightarrow> nat \<Rightarrow> (string \<Rightarrow> string) \<Rightarrow> (nat \<times> nat) list"

subsection \<open>The update scheduler\<close>

text \<open>\<open>updateDebouncer\<close>: the new value of \<open>this.highlightDelay\<close>.\<close>

definition visibleRangeSize :: "(nat \<times> nat) list \<Rightarrow> int" where
  "visibleRangeSize rs = foldl (\<lambda>sum r. sum + (int (snd r) - int (fst r))) 0 rs"

definition updateDebouncer :: "EditorView \<Rightarrow> int" where
  "updateDebouncer view =
     (let baseDelay = highlightDelay (highlightConfig view);
          docSize = length (doc view);
          vSize = visibleRangeSize (visibleRanges view);
          adaptiveDelay = baseDelay;
          adaptiveDelay = (if docSize > 50000 then max baseDelay 300 else adaptiveDelay);
          adaptiveDelay = (if docSize > 100000 then max baseDelay 500 else adaptiveDelay);
          adaptiveDelay = (if vSize > 10000 then adaptiveDelay + 100 else adaptiveDelay)
      in adaptiveDelay)"

text \<open>
  A \<open>ViewUpdate\<close>: the three change flags and the transactions, each transaction given
  by its \<open>isUserEvent\<close> method.
\<close>

record ViewUpdate =
  selectionSet :: bool
  docChanged :: bool
  viewportChanged :: bool
  transactions :: "(string \<Rightarrow> bool) list"

definition isTyping :: "ViewUpdate \<Rightarrow> bool" where
  "isTyping u = (docChanged u \<and> list_ex (\<lambda>tr. tr ''input.type'') (transactions u))"

definition isScrolling :: "ViewUpdate \<Rightarrow> bool" where
  "isScrolling u = (viewportChanged u \<and> \<not> docChanged u \<and> \<not> selectionSet u)"

definition effectiveDelay :: "int \<Rightarrow> ViewUpdate \<Rightarrow> int" where
  "effectiveDelay thisDelay u =
     (let e = thisDelay;
          e = (if isScrolling u then min thisDelay 100 else e);
          e = (if isTyping u then max thisDelay 200 else e)
      in e)"

text \<open>
  What \<open>update\<close> schedules: nothing when neither selection, document nor viewport changed;
  otherwise the clearing timer (150) and the recomputation, through a temporary debouncer
  when the effective delay differs from \<open>this.highlightDelay\<close>.
\<close>

record Scheduled =
  clearAfter :: int
  recomputeAfter :: int
  tempDebouncer :: bool

definition update :: "int \<Rightarrow> ViewUpdate \<Rightarrow> Scheduled option" where
  "update thisDelay u =
     (if selectionSet u \<or> docChanged u \<or> viewportChanged u
      then Some \<lparr>clearAfter = 150, recomputeAfter = effectiveDelay thisDelay u,
                 tempDebouncer = (effectiveDelay thisDelay u \<noteq> thisDelay)\<rparr>
      else None)"

subsection \<open>The scan\<close>

text \<open>The acceptance test of an occurrence (the outer \<open>if\<close> of the cursor loop).\<close>

definition boundaryOk :: "(string \<Rightarrow> CharCategory) option \<Rightarrow> string \<Rightarrow> nat \<Rightarrow> nat \<Rightarrow> bool" where
  "boundaryOk check d f t =
     (case check of
        None \<Rightarrow> True
      | Some c \<Rightarrow> (f = 0 \<or> c (sliceDoc d (f - 1) f) \<noteq> Word) \<and>
                  (t = length d \<or> c (sliceDoc d t (t + 1)) \<noteq> Word))"

definition markDeco :: "string \<Rightarrow> string \<Rightarrow> Decoration" where
  "markDeco cls contents = Mark cls (Some [(''data-contents'', contents)])"

text \<open>The classification of an accepted occurrence: what is pushed onto \<open>deco\<close>.\<close>

definition pushDeco ::
  "(string \<Rightarrow> CharCategory) option \<Rightarrow> SelectionRange \<Rightarrow> string \<Rightarrow> string \<Rightarrow>
   DecoRange list \<Rightarrow> nat \<Rightarrow> nat \<Rightarrow> DecoRange list" where
  "pushDeco check rng matchType d ds f t =
     (let string = trim (sliceDoc d f t)
      in if check \<noteq> None \<and> f \<le> sel_from rng \<and> t \<ge> sel_to rng
         then ds @ [mkRange (markDeco (''cm-current-'' @ matchType) string) f t]
         else if f \<ge> sel_to rng \<or> t \<le> sel_from rng
         then ds @ [mkRange (markDeco (''cm-matched-'' @ matchType) string) f t]
         else ds)"

text \<open>
  The \<open>while (!cursor.next().done)\<close> loop over the values of one cursor. \<open>None\<close> is the
  \<open>return Decoration.none\<close> inside the loop.
\<close>

fun cursorLoop ::
  "(string \<Rightarrow> CharCategory) option \<Rightarrow> SelectionRange \<Rightarrow> string \<Rightarrow> string \<Rightarrow> int \<Rightarrow>
   (nat \<times> nat) list \<Rightarrow> DecoRange list \<Rightarrow> DecoRange list option" where
  "cursorLoop check rng matchType d mx [] ds = Some ds"
| "cursorLoop check rng matchType d mx ((f, t) # ms) ds =
     (if boundaryOk check d f t
      then (let ds' = pushDeco check rng matchType d ds f t
            in if int (length ds') > mx then None
               else cursorLoop check rng matchType d mx ms ds')
      else cursorLoop check rng matchType d mx ms ds)"

definition caseInsensitive :: "string \<Rightarrow> string" where
  "caseInsensitive s = toLowerCase s"

text \<open>The \<open>for (let part of view.visibleRanges)\<close> loop.\<close>

fun partsLoop ::
  "Host \<Rightarrow> (string \<Rightarrow> CharCategory) option \<Rightarrow> SelectionRange \<Rightarrow> string \<Rightarrow> string \<Rightarrow> int \<Rightarrow>
   string \<Rightarrow> (nat \<times> nat) list \<Rightarrow> DecoRange list \<Rightarrow> DecoRange list option" where
  "partsLoop h check rng matchType d mx query [] ds = Some ds"
| "partsLoop h check rng matchType d mx query ((a, b) # parts) ds =
     (case cursorLoop check rng matchType d mx
             (SearchCursor h d query a b caseInsensitive) ds of
        None \<Rightarrow> None
      | Some ds' \<Rightarrow> partsLoop h check rng matchType d mx query parts ds')"

text \<open>
  The first half of \<open>getDeco\<close>: the decision whether to highlight at all, and with what.
  \<open>None\<close> is one of the early \<open>return Decoration.none\<close>; otherwise the result holds
  \<open>check\<close> (\<open>None\<close> is JavaScript's \<open>null\<close>), \<open>matchType\<close> and \<open>query\<close>.
\<close>

definition selectionQuery ::
  "Host \<Rightarrow> EditorView \<Rightarrow> ((string \<Rightarrow> CharCategory) option \<times> string \<times> string) option" where
  "selectionQuery h view =
     (let conf = highlightConfig view;
          sel = selection view
      in if length (ranges sel) > 1 then None
         else
           let rng = main sel
           in if sel_empty rng
              then
                if \<not> highlightWordAroundCursor conf then None
                else
                  (case wordAt h (doc view) (sel_head rng) of
                     None \<Rightarrow> None
                   | Some (wfrom, wto) \<Rightarrow>
                       let check = charCategorizer h (sel_head rng);
                           query = sliceDoc (doc view) wfrom wto;
                           ignored = map (\<lambda>w. trim (toLowerCase w))
                                       (split_on (CHR '','') (ignoredWords conf))
                       in if toLowerCase query \<in> set ignored \<or>
                             int (length query) < minSelectionLength conf
                          then None
                          else Some (Some check, ''word'', query))
              else
                if \<not> highlightSelectedText conf then None
                else
                  let len = int (sel_to rng) - int (sel_from rng)
                  in if len < minSelectionLength conf \<or> len > 200 then None
                     else
                       let query = trim (sliceDoc (doc view) (sel_from rng) (sel_to rng))
                       in if query = [] then None
                          else Some (None, ''string'', query))"

text \<open>The second half of \<open>getDeco\<close>: both loops and the final rule.\<close>

definition scanQuery ::
  "Host \<Rightarrow> EditorView \<Rightarrow> (string \<Rightarrow> CharCategory) option \<Rightarrow> string \<Rightarrow> string \<Rightarrow> DecoRange list" where
  "scanQuery h view check matchType query =
     (let rng = main (selection view)
      in case partsLoop h check rng matchType (doc view)
                (maxMatches (highlightConfig view)) query (visibleRanges view) [] of
           None \<Rightarrow> []
         | Some ds \<Rightarrow> if length ds < (if sel_empty rng then 2 else 1) then [] else ds)"

text \<open>
  \<open>getDeco\<close>. The first component of the result is \<open>this.highlightDelay\<close> after the call
  (the debouncer is rebuilt when it differs from the configured delay), the second the
  decoration set, in the order the ranges were pushed; \<open>[]\<close> is \<open>Decoration.none\<close>.
\<close>

definition getDeco :: "Host \<Rightarrow> int \<Rightarrow> EditorView \<Rightarrow> int \<times> DecoRange list" where
  "getDeco h thisDelay view =
     (let conf = highlightConfig view;
          thisDelay' = (if thisDelay \<noteq> highlightDelay conf then updateDebouncer view
                        else thisDelay)
      in (thisDelay',
          case selectionQuery h view of
            None \<Rightarrow> []
          | Some (check, matchType, query) \<Rightarrow> scanQuery h view check matchType query))"

subsection \<open>A reference host\<close>

text \<open>
  Modelled from the spec: the host editor's character classifier, its word lookup and its
  literal search cursor are external collaborators (section 6 of the specification) and
  are not part of the sources. The definitions below give them for ASCII text: a word
  character is a letter, a digit or the underscore; the word at a position extends over
  the word characters on both sides; the cursor reports, from left to right, the spans of
  the range whose normalised text equals the normalised query, each search resuming at the
  end of the span reported before (successive \<open>next()\<close> calls).
\<close>

definition isWordChar :: "char \<Rightarrow> bool" where
  "isWordChar c =
     (let n = (of_char c :: nat)
      in (48 \<le> n \<and> n \<le> 57) \<or> (65 \<le> n \<and> n \<le> 90) \<or> (97 \<le> n \<and> n \<le> 122) \<or> n = 95)"

definition cm_categorize :: "string \<Rightarrow> CharCategory" where
  "cm_categorize s =
     (if list_all isSpaceChar s then Space
      else if list_ex isWordChar s then Word
      else Other)"

definition cm_wordAt :: "string \<Rightarrow> nat \<Rightarrow> (nat \<times> nat) option" where
  "cm_wordAt d pos =
     (let start = pos - length (takeWhile (\<lambda>c. cm_categorize [c] = Word) (rev (take pos d)));
          end' = pos + length (takeWhile (\<lambda>c. cm_categorize [c] = Word) (drop pos d))
      in if start = end' then None else Some (start, end'))"

text \<open>
  \<open>scanFrom nq pos k xs\<close>: the spans found in the normalised text \<open>xs\<close> that starts at
  offset \<open>pos\<close>, the next \<open>k\<close> positions being covered by the span reported last.
\<close>

fun scanFrom :: "string \<Rightarrow> nat \<Rightarrow> nat \<Rightarrow> string \<Rightarrow> (nat \<times> nat) list" where
  "scanFrom nq pos k [] = []"
| "scanFrom nq pos k (x # xs) =
     (if k > 0 then scanFrom nq (pos + 1) (k - 1) xs
      else if nq \<noteq> [] \<and> take (length nq) (x # xs) = nq
      then (pos, pos + length nq) # scanFrom nq (pos + 1) (length nq - 1) xs
      else scanFrom nq (pos + 1) 0 xs)"

definition cm_SearchCursor ::
  "string \<Rightarrow> string \<Rightarrow> nat \<Rightarrow> nat \<Rightarrow> (string \<Rightarrow> string) \<Rightarrow> (nat \<times> nat) list" where
  "cm_SearchCursor d query a b norm =
     scanFrom (norm query) a 0 (norm (sliceDoc d a b))"

text \<open>
  A query overlaps itself when a proper suffix of it is a prefix of it, as \<open>abab\<close> does
  and \<open>abcd\<close> does not.
\<close>

definition selfOverlapping :: "string \<Rightarrow> bool" where
  "selfOverlapping nq =
     list_ex (\<lambda>k. drop k nq = take (length nq - k) nq) [1..<length nq]"

definition cm_host :: Host where
  "cm_host = \<lparr>wordAt = cm_wordAt, charCategorizer = (\<lambda>pos. cm_categorize),
              SearchCursor = cm_SearchCursor\<rparr>"

text \<open>A view with a single selection range and the default options.\<close>

definition mkView :: "string \<Rightarrow> nat \<Rightarrow> nat \<Rightarrow> (nat \<times> nat) list \<Rightarrow> SelectionHighlightOptions \<Rightarrow> EditorView" where
  "mkView d f t parts conf =
     \<lparr>doc = d,
      selection = \<lparr>ranges = [\<lparr>sel_from = f, sel_to = t, sel_head = t\<rparr>],
                   main = \<lparr>sel_from = f, sel_to = t, sel_head = t\<rparr>\<rparr>,
      visibleRanges = parts, highlightConfig = conf\<rparr>"

subsection \<open>Occurrences, acceptance and classification\<close>

text \<open>
  The occurrences of a query: the values of the cursors of all visible ranges, in the
  order the loops visit them.
\<close>

definition occurrences :: "Host \<Rightarrow> EditorView \<Rightarrow> string \<Rightarrow> (nat \<times> nat) list" where
  "occurrences h view query =
     concat (map (\<lambda>(a, b). SearchCursor h (doc view) query a b caseInsensitive)
                 (visibleRanges view))"

definition accepted ::
  "(string \<Rightarrow> CharCategory) option \<Rightarrow> string \<Rightarrow> (nat \<times> nat) list \<Rightarrow> (nat \<times> nat) list" where
  "accepted check d occs = filter (\<lambda>(f, t). boundaryOk check d f t) occs"

text \<open>What one accepted occurrence contributes to \<open>deco\<close>: one range or none.\<close>

definition classify ::
  "(string \<Rightarrow> CharCategory) option \<Rightarrow> SelectionRange \<Rightarrow> string \<Rightarrow> string \<Rightarrow>
   nat \<times> nat \<Rightarrow> DecoRange list" where
  "classify check rng matchType d occ = pushDeco check rng matchType d [] (fst occ) (snd occ)"

text \<open>What a list of occurrences contributes: the ranges of its accepted members.\<close>

definition emit ::
  "(string \<Rightarrow> CharCategory) option \<Rightarrow> SelectionRange \<Rightarrow> string \<Rightarrow> string \<Rightarrow>
   (nat \<times> nat) list \<Rightarrow> DecoRange list" where
  "emit check rng matchType d ms = concat (map (classify check rng matchType d) (accepted check d ms))"

text \<open>Everything the two loops push when no cap stops them.\<close>

definition emitted ::
  "Host \<Rightarrow> EditorView \<Rightarrow> (string \<Rightarrow> CharCategory) option \<Rightarrow> string \<Rightarrow> string \<Rightarrow> DecoRange list" where
  "emitted h view check matchType query =
     concat (map (classify check (main (selection view)) matchType (doc view))
                 (accepted check (doc view) (occurrences h view query)))"

definition span :: "DecoRange \<Rightarrow> nat \<times> nat" where
  "span r = (from_pos r, to_pos r)"

definition withMaxMatches :: "EditorView \<Rightarrow> int \<Rightarrow> EditorView" where
  "withMaxMatches view m = view\<lparr>highlightConfig := (highlightConfig view)\<lparr>maxMatches := m\<rparr>\<rparr>"

section \<open>The static highlighter\<close>

subsection \<open>Errors\<close>

text \<open>
  A thrown exception is a value. \<open>Inl e\<close> is a call that threw \<open>e\<close>, and \<open>bindE\<close>
  runs the rest of a block only after a call that returned, as statements in sequence do.
\<close>

datatype Error = Error string

definition bindE :: "Error + 'a \<Rightarrow> ('a \<Rightarrow> Error + 'b) \<Rightarrow> Error + 'b" where
  "bindE m k = (case m of Inl e \<Rightarrow> Inl e | Inr x \<Rightarrow> k x)"

subsection \<open>The decoration pool\<close>

definition hexDigit :: "nat \<Rightarrow> char" where
  "hexDigit n = (if n < 10 then char_of (48 + n) else char_of (87 + n))"

text \<open>One code unit inside a JSON string literal, as \<open>JSON.stringify\<close> writes it.\<close>

definition jsonChar :: "char \<Rightarrow> string" where
  "jsonChar c =
     (let n = (of_char c :: nat)
      in if n = 34 then [CHR 0x5C, CHR 0x22]
         else if n = 92 then [CHR 0x5C, CHR 0x5C]
         else if n = 8 then [CHR 0x5C, CHR ''b'']
         else if n = 12 then [CHR 0x5C, CHR ''f'']
         else if n = 10 then [CHR 0x5C, CHR ''n'']
         else if n = 13 then [CHR 0x5C, CHR ''r'']
         else if n = 9 then [CHR 0x5C, CHR ''t'']
         else if n < 32 then [CHR 0x5C, CHR ''u'', CHR ''0'', CHR ''0'',
                              hexDigit (n div 16), hexDigit (n mod 16)]
         else [c])"

definition jsonString :: "string \<Rightarrow> string" where
  "jsonString s = [CHR 0x22] @ concat (map jsonChar s) @ [CHR 0x22]"

fun joinWith :: "string \<Rightarrow> string list \<Rightarrow> string" where
  "joinWith sep [] = []"
| "joinWith sep [x] = x"
| "joinWith sep (x # y # ys) = x @ sep @ joinWith sep (y # ys)"

text \<open>\<open>JSON.stringify\<close> of an object whose values are strings.\<close>

definition JSON_stringify :: "(string \<times> string) list \<Rightarrow> string" where
  "JSON_stringify attrs =
     ''{'' @ joinWith '','' (map (\<lambda>(k, v). jsonString k @ '':'' @ jsonString v) attrs) @ ''}''"

text \<open>
  The cache of the pool: a JavaScript \<open>Map\<close>, that is its entries in insertion order,
  no key twice.
\<close>

type_synonym DecorationPool = "(string \<times> Decoration) list"

definition poolKey :: "string \<Rightarrow> string \<Rightarrow> (string \<times> string) list option \<Rightarrow> string" where
  "poolKey type className attributes =
     type @ ''-'' @ className @ ''-'' @
     JSON_stringify (case attributes of None \<Rightarrow> [] | Some a \<Rightarrow> a)"

text \<open>\<open>getDecoration\<close>: the decoration and the cache after the call, or the error thrown.\<close>

definition getDecoration ::
  "string \<Rightarrow> string \<Rightarrow> (string \<times> string) list option \<Rightarrow> DecorationPool \<Rightarrow>
   Error + (Decoration \<times> DecorationPool)" where
  "getDecoration type className attributes cache =
     (let key = poolKey type className attributes
      in case map_of cache key of
           Some decoration \<Rightarrow> Inr (decoration, cache)
         | None \<Rightarrow>
             if type = ''mark''
             then Inr (Mark className attributes, cache @ [(key, Mark className attributes)])
             else if type = ''line''
             then Inr (Line [(''class'', className)],
                       cache @ [(key, Line [(''class'', className)])])
             else if type = ''widget''
             then Inr (Widget className, cache @ [(key, Widget className)])
             else Inl (Error (''Unknown decoration type: '' @ type)))"

text \<open>\<open>cleanup\<close>: above 100 entries only the last 50 are kept.\<close>

definition cleanup :: "DecorationPool \<Rightarrow> DecorationPool" where
  "cleanup cache =
     (if length cache > 100 then drop (length cache - 50) cache else cache)"

text \<open>
  \<open>createRange\<close>, that is \<open>decoration.range(from, to)\<close> of the host: it throws a
  \<open>RangeError\<close> for a mark decoration whose range is empty and for a line or widget
  decoration whose range is not zero-length, and returns the range otherwise.
\<close>

definition createRange :: "Decoration \<Rightarrow> nat \<Rightarrow> nat \<Rightarrow> Error + DecoRange" where
  "createRange decoration f t =
     (case decoration of
        Mark c a \<Rightarrow>
          if f \<ge> t then Inl (Error ''Mark decorations may not be empty'')
          else Inr (mkRange decoration f t)
      | Line a \<Rightarrow>
          if t \<noteq> f then Inl (Error ''Line decoration ranges must be zero-length'')
          else Inr (mkRange decoration f t)
      | Widget c \<Rightarrow>
          if t \<noteq> f then Inl (Error ''Widget decorations can only have zero-length ranges'')
          else Inr (mkRange decoration f t))"

subsection \<open>Queries, cursors and the view\<close>

record SearchQuery =
  q_query :: string
  q_class :: string
  q_regex :: bool
  q_mark :: "string list option"

text \<open>\<open>query.mark?.contains(m)\<close>.\<close>

definition markContains :: "SearchQuery \<Rightarrow> string \<Rightarrow> bool" where
  "markContains query m = (case q_mark query of None \<Rightarrow> False | Some ms \<Rightarrow> List.member ms m)"

text \<open>
  A value of a cursor: the span of the match and, for a regular expression cursor,
  \<open>match.indices?.groups\<close>: the named groups in the order of \<open>Object.entries\<close>, each with
  its pair of indices when it has one.
\<close>

record CursorValue =
  cv_from :: nat
  cv_to :: nat
  cv_groups :: "(string \<times> (nat \<times> nat) option) list option"

text \<open>
  The primitives of the host that the static \<open>getDeco\<close> calls, as parameters:
  \<open>newRegExpCursor doc query from to\<close> and \<open>newSearchCursor doc query from to\<close> are the
  constructor calls of the \<open>try\<close> block, \<open>Inl\<close> when the constructor throws and otherwise
  the values the cursor yields until \<open>done\<close>; \<open>tokenClassAt pos\<close> is
  \<open>syntaxTree(state).resolveInner(pos).type.prop(tokenClassNodeProp)\<close>.
\<close>

record StaticHost =
  newRegExpCursor :: "string \<Rightarrow> string \<Rightarrow> nat \<Rightarrow> nat \<Rightarrow> Error + CursorValue list"
  newSearchCursor :: "string \<Rightarrow> string \<Rightarrow> nat \<Rightarrow> nat \<Rightarrow> Error + CursorValue list"
  tokenClassAt :: "nat \<Rightarrow> string option"

text \<open>
  What the static plugin reads from the view: the document, the visible ranges and
  \<open>Object.values\<close> of the configured queries.
\<close>

record StaticView =
  s_doc :: string
  s_visibleRanges :: "(nat \<times> nat) list"
  queries :: "SearchQuery list"

text \<open>\<open>doc.lineAt(pos).from\<close>: the offset after the last line break before \<open>pos\<close>.\<close>

definition lineAt_from :: "string \<Rightarrow> nat \<Rightarrow> nat" where
  "lineAt_from d pos =
     length (take pos d) - length (takeWhile (\<lambda>c. c \<noteq> CHR 0x0A) (rev (take pos d)))"

text \<open>The excluded section of a position, found from the token classes of its node.\<close>

definition excludedSection :: "string option \<Rightarrow> string option" where
  "excludedSection nodeProps =
     find (\<lambda>token. case nodeProps of
                      None \<Rightarrow> False
                    | Some p \<Rightarrow> List.member (split_on (CHR '' '') p) token)
          [''hmd-codeblock'', ''hmd-frontmatter'']"

subsection \<open>The scan\<close>

text \<open>
  The arrays and the object that \<open>getDeco\<close> fills, and the cache of the pool.
  \<open>lineClasses\<close> has integer keys, which \<open>Object.entries\<close> lists in ascending order: it is
  kept as a list of entries sorted by key.
\<close>

record ScanState =
  tokenDecos :: "DecoRange list"
  lineDecos :: "DecoRange list"
  groupDecos :: "DecoRange list"
  widgetDecos :: "DecoRange list"
  lineClasses :: "(nat \<times> string list) list"
  pool :: DecorationPool

definition initState :: "DecorationPool \<Rightarrow> ScanState" where
  "initState cache =
     \<lparr>tokenDecos = [], lineDecos = [], groupDecos = [], widgetDecos = [],
      lineClasses = [], pool = cache\<rparr>"

text \<open>\<open>if (!lineClasses[linePos]) lineClasses[linePos] = []; lineClasses[linePos].push(c)\<close>.\<close>

fun pushLineClass :: "nat \<Rightarrow> string \<Rightarrow> (nat \<times> string list) list \<Rightarrow> (nat \<times> string list) list" where
  "pushLineClass k c [] = [(k, [c])]"
| "pushLineClass k c ((k', cs) # rest) =
     (if k = k' then (k', cs @ [c]) # rest
      else if k < k' then (k, [c]) # (k', cs) # rest
      else (k', cs) # pushLineClass k c rest)"

text \<open>
  The body of the \<open>forEach\<close> over the named groups, with its \<open>try\<close> and \<open>catch\<close>.
  A group without indices makes the destructuring throw before anything is done. A group
  whose range \<open>createRange\<close> refuses has its decoration cached already when the exception
  is thrown. Whatever is thrown is caught, and nothing is pushed for that group.
\<close>

definition groupStep :: "nat \<Rightarrow> ScanState \<Rightarrow> string \<times> (nat \<times> nat) option \<Rightarrow> ScanState" where
  "groupStep linePos st g =
     (case snd g of
        None \<Rightarrow> st
      | Some (groupFrom, groupTo) \<Rightarrow>
          (case getDecoration ''mark'' (fst g) None (pool st) of
             Inl err \<Rightarrow> st
           | Inr (groupDeco, cache) \<Rightarrow>
               (case createRange groupDeco (linePos + groupFrom) (linePos + groupTo) of
                  Inl err \<Rightarrow> st\<lparr>pool := cache\<rparr>
                | Inr r \<Rightarrow> st\<lparr>pool := cache, groupDecos := groupDecos st @ [r]\<rparr>)))"

text \<open>The four mark modes of the loop body, in the order of the source.\<close>

definition lineMode :: "SearchQuery \<Rightarrow> nat \<Rightarrow> ScanState \<Rightarrow> Error + ScanState" where
  "lineMode query linePos st =
     (if markContains query ''line''
      then Inr (st\<lparr>lineClasses := pushLineClass linePos (q_class query) (lineClasses st)\<rparr>)
      else Inr st)"

definition matchMode :: "SearchQuery \<Rightarrow> string \<Rightarrow> nat \<Rightarrow> nat \<Rightarrow> ScanState \<Rightarrow> Error + ScanState" where
  "matchMode query string f t st =
     (if q_mark query = None \<or> markContains query ''match''
      then bindE (getDecoration ''mark'' (q_class query) (Some [(''data-contents'', string)]) (pool st))
             (\<lambda>(markDeco, cache).
                bindE (createRange markDeco f t)
                  (\<lambda>r. Inr (st\<lparr>pool := cache, tokenDecos := tokenDecos st @ [r]\<rparr>)))
      else Inr st)"

definition startEndMode :: "SearchQuery \<Rightarrow> nat \<Rightarrow> nat \<Rightarrow> ScanState \<Rightarrow> Error + ScanState" where
  "startEndMode query f t st =
     (if markContains query ''start'' \<or> markContains query ''end''
      then bindE (getDecoration ''widget'' (q_class query @ ''-start'') None (pool st))
             (\<lambda>(startDeco, cache1).
                bindE (getDecoration ''widget'' (q_class query @ ''-end'') None cache1)
                  (\<lambda>(endDeco, cache2).
                     bindE (if markContains query ''start''
                            then bindE (createRange startDeco f f)
                                   (\<lambda>r. Inr (widgetDecos st @ [r]))
                            else Inr (widgetDecos st))
                       (\<lambda>ws.
                          bindE (if markContains query ''end''
                                 then bindE (createRange endDeco t t) (\<lambda>r. Inr (ws @ [r]))
                                 else Inr ws)
                            (\<lambda>ws. Inr (st\<lparr>pool := cache2, widgetDecos := ws\<rparr>)))))
      else Inr st)"

definition groupMode :: "SearchQuery \<Rightarrow> nat \<Rightarrow> CursorValue \<Rightarrow> ScanState \<Rightarrow> Error + ScanState" where
  "groupMode query linePos v st =
     (if markContains query ''group''
      then (case (if q_regex query then cv_groups v else None) of
              None \<Rightarrow> Inr st
            | Some groups \<Rightarrow> Inr (foldl (groupStep linePos) st groups))
      else Inr st)"

text \<open>The body of the \<open>while\<close> loop for one value of the cursor.\<close>

definition matchBody ::
  "StaticHost \<Rightarrow> string \<Rightarrow> SearchQuery \<Rightarrow> CursorValue \<Rightarrow> ScanState \<Rightarrow> Error + ScanState" where
  "matchBody hst d query v st =
     (let f = cv_from v; t = cv_to v;
          string = trim (sliceDoc d f t);
          linePos = lineAt_from d f
      in if excludedSection (tokenClassAt hst (linePos + 1)) \<noteq> None then Inr st
         else bindE (lineMode query linePos st)
                (\<lambda>st. bindE (matchMode query string f t st)
                   (\<lambda>st. bindE (startEndMode query f t st)
                      (\<lambda>st. groupMode query linePos v st))))"

fun whileLoop ::
  "StaticHost \<Rightarrow> string \<Rightarrow> SearchQuery \<Rightarrow> CursorValue list \<Rightarrow> ScanState \<Rightarrow> Error + ScanState" where
  "whileLoop hst d query [] st = Inr st"
| "whileLoop hst d query (v # vs) st =
     bindE (matchBody hst d query v st) (whileLoop hst d query vs)"

text \<open>
  One query on one visible range: the cursor is built inside \<open>try\<close>, and a constructor
  that throws is answered by \<open>continue\<close>.
\<close>

definition newCursor ::
  "StaticHost \<Rightarrow> string \<Rightarrow> SearchQuery \<Rightarrow> nat \<times> nat \<Rightarrow> Error + CursorValue list" where
  "newCursor hst d query part =
     (if q_regex query then newRegExpCursor hst d (q_query query) (fst part) (snd part)
      else newSearchCursor hst d (q_query query) (fst part) (snd part))"

definition queryStep ::
  "StaticHost \<Rightarrow> string \<Rightarrow> nat \<times> nat \<Rightarrow> SearchQuery \<Rightarrow> ScanState \<Rightarrow> Error + ScanState" where
  "queryStep hst d part query st =
     (case newCursor hst d query part of
        Inl err \<Rightarrow> Inr st
      | Inr vs \<Rightarrow> whileLoop hst d query vs st)"

fun queriesLoop ::
  "StaticHost \<Rightarrow> string \<Rightarrow> nat \<times> nat \<Rightarrow> SearchQuery list \<Rightarrow> ScanState \<Rightarrow> Error + ScanState" where
  "queriesLoop hst d part [] st = Inr st"
| "queriesLoop hst d part (query # qs) st =
     bindE (queryStep hst d part query st) (queriesLoop hst d part qs)"

fun rangesLoop ::
  "StaticHost \<Rightarrow> string \<Rightarrow> SearchQuery list \<Rightarrow> (nat \<times> nat) list \<Rightarrow> ScanState \<Rightarrow> Error + ScanState" where
  "rangesLoop hst d qs [] st = Inr st"
| "rangesLoop hst d qs (part # parts) st =
     bindE (queriesLoop hst d part qs st) (rangesLoop hst d qs parts)"

text \<open>The \<open>forEach\<close> over the entries of \<open>lineClasses\<close>.\<close>

fun lineEntries :: "(nat \<times> string list) list \<Rightarrow> ScanState \<Rightarrow> Error + ScanState" where
  "lineEntries [] st = Inr st"
| "lineEntries ((pos, classes) # es) st =
     bindE (getDecoration ''line'' (joinWith '' '' classes) None (pool st))
       (\<lambda>(lineDeco, cache).
          bindE (createRange lineDeco pos pos)
            (\<lambda>r. lineEntries es (st\<lparr>pool := cache, lineDecos := lineDecos st @ [r]\<rparr>)))"

text \<open>Everything \<open>getDeco\<close> does before \<open>decorationPool.cleanup()\<close>.\<close>

definition scanPass :: "StaticHost \<Rightarrow> StaticView \<Rightarrow> DecorationPool \<Rightarrow> Error + ScanState" where
  "scanPass hst view cache =
     bindE (rangesLoop hst (s_doc view) (queries view) (s_visibleRanges view) (initState cache))
       (\<lambda>st. lineEntries (lineClasses st) st)"

text \<open>The four published sets.\<close>

record StaticDecorations =
  line :: "DecoRange list"
  token :: "DecoRange list"
  group :: "DecoRange list"
  widget :: "DecoRange list"

text \<open>
  \<open>array.sort((a, b) => a.from - b.from)\<close>: a stable sort by \<open>from\<close>.
\<close>

definition sortByFrom :: "DecoRange list \<Rightarrow> DecoRange list" where
  "sortByFrom xs = sort_key from_pos xs"

text \<open>
  The static \<open>getDeco\<close>: the four sets and the cache of the pool after the call, or the
  exception that left the function.
\<close>

definition static_getDeco ::
  "StaticHost \<Rightarrow> StaticView \<Rightarrow> DecorationPool \<Rightarrow> Error + (StaticDecorations \<times> DecorationPool)" where
  "static_getDeco hst view cache =
     bindE (scanPass hst view cache)
       (\<lambda>st. Inr (\<lparr>line = sortByFrom (lineDecos st),
                    token = sortByFrom (tokenDecos st),
                    group = sortByFrom (groupDecos st),
                    widget = sortByFrom (widgetDecos st)\<rparr>,
                  cleanup (pool st)))"

subsection \<open>Notions used to state the properties of the static scan\<close>

text \<open>All ranges pushed so far, and the invariant that their decorations are cached.\<close>

definition allDecos :: "ScanState \<Rightarrow> DecoRange list" where
  "allDecos st = tokenDecos st @ lineDecos st @ groupDecos st @ widgetDecos st"

definition cached :: "ScanState \<Rightarrow> bool" where
  "cached st = (deco ` set (allDecos st) \<subseteq> snd ` set (pool st))"

text \<open>
  A step that, when it returns, has kept every entry of the cache and the invariant.
\<close>

definition okStep :: "ScanState \<Rightarrow> Error + ScanState \<Rightarrow> bool" where
  "okStep st r =
     (\<forall>st'. r = Inr st' \<longrightarrow> set (pool st) \<subseteq> set (pool st') \<and> (cached st \<longrightarrow> cached st'))"

text \<open>A match is excluded when the node at its line start plus one is an excluded section.\<close>

definition isExcluded :: "StaticHost \<Rightarrow> string \<Rightarrow> CursorValue \<Rightarrow> bool" where
  "isExcluded hst d v =
     (excludedSection (tokenClassAt hst (lineAt_from d (cv_from v) + 1)) \<noteq> None)"

text \<open>A host whose cursors are those of \<open>hst\<close> passed through \<open>F\<close>.\<close>

definition mapCursors ::
  "(string \<Rightarrow> Error + CursorValue list \<Rightarrow> Error + CursorValue list) \<Rightarrow> StaticHost \<Rightarrow> StaticHost" where
  "mapCursors F hst =
     hst\<lparr>newRegExpCursor := (\<lambda>d q a b. F d (newRegExpCursor hst d q a b)),
         newSearchCursor := (\<lambda>d q a b. F d (newSearchCursor hst d q a b))\<rparr>"

text \<open>The host whose cursors never yield an excluded match.\<close>

definition withoutExcluded :: "StaticHost \<Rightarrow> StaticHost" where
  "withoutExcluded hst =
     mapCursors (\<lambda>d r. case r of
                          Inl e \<Rightarrow> Inl e
                        | Inr vs \<Rightarrow> Inr (filter (\<lambda>v. \<not> isExcluded hst d v) vs)) hst"

text \<open>
  The host without failures: a constructor that threw gives a cursor without values, and
  every value has lost its groups without indices.
\<close>

definition dropBadGroups :: "CursorValue \<Rightarrow> CursorValue" where
  "dropBadGroups v = v\<lparr>cv_groups := map_option (filter (\<lambda>g. snd g \<noteq> None)) (cv_groups v)\<rparr>"

definition recovered :: "StaticHost \<Rightarrow> StaticHost" where
  "recovered hst =
     mapCursors (\<lambda>d r. case r of
                          Inl e \<Rightarrow> Inr []
                        | Inr vs \<Rightarrow> Inr (map dropBadGroups vs)) hst"

subsection \<open>A scripted host\<close>

text \<open>
  Modelled from the spec: the regular expression cursor of this repository
  (\<open>regexp-cursor\<close>) and the host's literal search cursor and syntax tree are not part of
  the sources. For concrete runs the regular expression cursor answers from a table
  indexed by the pattern (a pattern not in the table matches nothing), the literal cursor
  is the reference search without normalisation, and the token classes of the positions
  are given by a table.
\<close>

definition literalValues :: "string \<Rightarrow> string \<Rightarrow> nat \<Rightarrow> nat \<Rightarrow> CursorValue list" where
  "literalValues d q a b =
     map (\<lambda>(f, t). \<lparr>cv_from = f, cv_to = t, cv_groups = None\<rparr>) (cm_SearchCursor d q a b (\<lambda>s. s))"

definition scripted_host ::
  "(string \<times> (Error + CursorValue list)) list \<Rightarrow> (nat \<times> string) list \<Rightarrow> StaticHost" where
  "scripted_host regexTable classTable =
     \<lparr>newRegExpCursor = (\<lambda>d q a b. case map_of regexTable q of Some r \<Rightarrow> r | None \<Rightarrow> Inr []),
      newSearchCursor = (\<lambda>d q a b. Inr (literalValues d q a b)),
      tokenClassAt = map_of classTable\<rparr>"

subsection \<open>Concrete inputs\<close>

text \<open>
  The specification's example: the rule \<open>TODO\<close> with class \<open>todo\<close> and mark modes
  \<open>match\<close> and \<open>line\<close>, on a document of two lines with one \<open>TODO\<close> each.
\<close>

definition todoQuery :: SearchQuery where
  "todoQuery = \<lparr>q_query = ''TODO'', q_class = ''todo'', q_regex = False,
                q_mark = Some [''match'', ''line'']\<rparr>"

definition todoDoc :: string where
  "todoDoc = ''TODO x'' @ [CHR 0x0A] @ ''TODO y''"

definition todoView :: StaticView where
  "todoView = \<lparr>s_doc = todoDoc, s_visibleRanges = [(0, 13)], queries = [todoQuery]\<rparr>"

text \<open>
  A literal rule without mark modes, a literal rule with boundary widgets, a regular
  expression that does not compile, and one with two named groups of which the second
  took no part in the match.
\<close>

definition plainQuery :: SearchQuery where
  "plainQuery = \<lparr>q_query = ''a'', q_class = ''ca'', q_regex = False, q_mark = None\<rparr>"

definition widgetQuery :: SearchQuery where
  "widgetQuery = \<lparr>q_query = ''b'', q_class = ''cb'', q_regex = False,
                  q_mark = Some [''start'', ''end'', ''match'']\<rparr>"

definition badQuery :: SearchQuery where
  "badQuery = \<lparr>q_query = ''('', q_class = ''bad'', q_regex = True, q_mark = None\<rparr>"

definition groupQuery :: SearchQuery where
  "groupQuery = \<lparr>q_query = ''(?<k>a)(?<v>b)?'', q_class = ''kv'', q_regex = True,
                 q_mark = Some [''group'']\<rparr>"

definition failingHost :: StaticHost where
  "failingHost =
     scripted_host
       [(''('', Inl (Error ''Invalid regular expression'')),
        (''(?<k>a)(?<v>b)?'',
         Inr [\<lparr>cv_from = 2, cv_to = 3, cv_groups = Some [(''k'', Some (2, 3)), (''v'', None)]\<rparr>])]
       []"

text \<open>
  A regular expression that matches the empty string, \<open>x*\<close> on the document \<open>ab\<close>: the
  cursor yields the empty match at each of the offsets 0, 1 and 2. The rule has no mark
  modes, so each match is to be marked as a token.
\<close>

definition emptyMatchQuery :: SearchQuery where
  "emptyMatchQuery = \<lparr>q_query = ''x*'', q_class = ''star'', q_regex = True, q_mark = None\<rparr>"

definition emptyMatchHost :: StaticHost where
  "emptyMatchHost =
     scripted_host
       [(''x*'', Inr [\<lparr>cv_from = 0, cv_to = 0, cv_groups = None\<rparr>,
                     \<lparr>cv_from = 1, cv_to = 1, cv_groups = None\<rparr>,
                     \<lparr>cv_from = 2, cv_to = 2, cv_groups = None\<rparr>])]
       []"

definition emptyMatchView :: StaticView where
  "emptyMatchView = \<lparr>s_doc = ''ab'', s_visibleRanges = [(0, 2)], queries = [emptyMatchQuery]\<rparr>"


section \<open>Properties of the selection highlighter\<close>

subsection \<open>The loops in closed form\<close>

lemma pushDeco_classify:
  "pushDeco check rng mt d ds f t = ds @ classify check rng mt d (f, t)"
  by (auto simp add: pushDeco_def classify_def Let_def)

lemma length_classify_le: "length (classify check rng mt d occ) \<le> 1"
  by (simp add: classify_def pushDeco_def Let_def)

lemma emit_Nil: "accepted check d ms = [] \<Longrightarrow> emit check rng mt d ms = []"
  by (simp add: emit_def)

lemma emit_append:
  "emit check rng mt d (xs @ ys) = emit check rng mt d xs @ emit check rng mt d ys"
  by (simp add: emit_def accepted_def)

lemma accepted_append:
  "accepted check d (xs @ ys) = accepted check d xs @ accepted check d ys"
  by (simp add: accepted_def)

text \<open>
  The cursor loop stops with \<open>None\<close> exactly when some occurrence is accepted and the
  ranges pushed in the end outnumber the cap: the length of \<open>deco\<close> never decreases and
  is compared with the cap after every accepted occurrence.
\<close>

lemma cursorLoop_eq:
  "cursorLoop check rng mt d mx ms ds =
     (if accepted check d ms \<noteq> [] \<and> int (length (ds @ emit check rng mt d ms)) > mx
      then None else Some (ds @ emit check rng mt d ms))"
proof (induction ms arbitrary: ds)
  case Nil
  then show ?case by (simp add: accepted_def emit_def)
next
  case (Cons m ms)
  obtain f t where m: "m = (f, t)" by (cases m)
  show ?case
  proof (cases "boundaryOk check d f t")
    case False
    then show ?thesis using Cons.IH[of ds] by (simp add: m accepted_def emit_def)
  next
    case True
    let ?ds' = "ds @ classify check rng mt d (f, t)"
    have e: "emit check rng mt d ((f, t) # ms) =
               classify check rng mt d (f, t) @ emit check rng mt d ms"
      using True by (simp add: accepted_def emit_def)
    have a: "accepted check d ((f, t) # ms) \<noteq> []"
      using True by (simp add: accepted_def)
    show ?thesis
      unfolding m cursorLoop.simps using True Cons.IH[of ?ds']
      by (auto simp add: e a pushDeco_classify Let_def emit_Nil)
  qed
qed

lemma partsLoop_eq:
  "partsLoop h check rng mt d mx q parts ds =
     cursorLoop check rng mt d mx
       (concat (map (\<lambda>(a, b). SearchCursor h d q a b caseInsensitive) parts)) ds"
proof (induction parts arbitrary: ds)
  case Nil
  then show ?case by simp
next
  case (Cons p parts)
  obtain a b where p: "p = (a, b)" by (cases p)
  show ?case
    unfolding p partsLoop.simps
    by (auto simp add: Cons.IH cursorLoop_eq emit_append accepted_append emit_Nil)
qed

lemma scanQuery_eq:
  "scanQuery h view check mt q =
     (let E = emitted h view check mt q
      in if int (length E) > maxMatches (highlightConfig view) \<or>
            length E < (if sel_empty (main (selection view)) then 2 else 1)
         then [] else E)"
  by (auto simp add: scanQuery_def partsLoop_eq cursorLoop_eq emitted_def emit_def
        occurrences_def Let_def accepted_def)

lemma getDeco_snd:
  "snd (getDeco h dl view) =
     (case selectionQuery h view of None \<Rightarrow> []
      | Some (check, mt, q) \<Rightarrow> scanQuery h view check mt q)"
  by (simp add: getDeco_def Let_def)

lemma getDeco_Some:
  "selectionQuery h view = Some (check, mt, q) \<Longrightarrow>
   snd (getDeco h dl view) =
     (if int (length (emitted h view check mt q)) > maxMatches (highlightConfig view) \<or>
         length (emitted h view check mt q) < (if sel_empty (main (selection view)) then 2 else 1)
      then [] else emitted h view check mt q)"
  by (simp add: getDeco_snd scanQuery_eq Let_def)

text \<open>Word mode is the mode of an empty main range, string mode that of a non-empty one.\<close>

lemma selectionQuery_mode:
  assumes "selectionQuery h view = Some (check, mt, q)"
  shows "(sel_empty (main (selection view)) \<longrightarrow>
            mt = ''word'' \<and> check = Some (charCategorizer h (sel_head (main (selection view))))) \<and>
         (\<not> sel_empty (main (selection view)) \<longrightarrow> mt = ''string'' \<and> check = None)"
  using assms
  by (auto simp add: selectionQuery_def Let_def split: if_splits option.splits prod.splits)

lemma selectionQuery_withMaxMatches:
  "selectionQuery h (withMaxMatches view m) = selectionQuery h view"
  by (simp add: selectionQuery_def withMaxMatches_def Let_def split: option.split prod.split)

lemma emitted_withMaxMatches:
  "emitted h (withMaxMatches view m) check mt q = emitted h view check mt q"
  by (simp add: emitted_def occurrences_def withMaxMatches_def)

lemma withMaxMatches_simps:
  "maxMatches (highlightConfig (withMaxMatches view m)) = m"
  "selection (withMaxMatches view m) = selection view"
  by (simp_all add: withMaxMatches_def)

subsection \<open>What each mode pushes\<close>

lemma classify_word:
  "sel_empty rng \<Longrightarrow>
   classify (Some c) rng mt d (f, t) =
     [mkRange (markDeco ((if f \<le> sel_from rng \<and> sel_from rng \<le> t then ''cm-current-'' else ''cm-matched-'') @ mt)
                 (trim (sliceDoc d f t))) f t]"
  by (auto simp add: classify_def pushDeco_def Let_def sel_empty_def)

lemma classify_string:
  "classify None rng mt d (f, t) =
     (if sel_to rng \<le> f \<or> t \<le> sel_from rng
      then [mkRange (markDeco (''cm-matched-'' @ mt) (trim (sliceDoc d f t))) f t] else [])"
  by (auto simp add: classify_def pushDeco_def Let_def)

lemma emit_word_spans:
  "sel_empty rng \<Longrightarrow> map span (emit (Some c) rng mt d ms) = accepted (Some c) d ms"
  by (induction ms) (auto simp add: emit_def accepted_def classify_word span_def mkRange_def)

lemma emit_string_spans:
  "map span (emit None rng mt d ms) = filter (\<lambda>(f, t). sel_to rng \<le> f \<or> t \<le> sel_from rng) ms"
  by (induction ms)
     (auto simp add: emit_def accepted_def boundaryOk_def classify_string span_def mkRange_def
           split: if_splits)

lemma emitted_emit:
  "emitted h view check mt q = emit check (main (selection view)) mt (doc view) (occurrences h view q)"
  by (simp add: emitted_def emit_def)

lemma accepted_None: "accepted None d occs = occs"
  by (simp add: accepted_def boundaryOk_def)

text \<open>Unfolding rules that evaluate the decision part of \<open>getDeco\<close> on the reference host.\<close>

lemmas sel_eval = selectionQuery_def mkView_def defaultHighlightOptions_def cm_host_def
  cm_wordAt_def cm_categorize_def isSpaceChar_def isWordChar_def sel_empty_def sliceDoc_def
  toLowerCase_def toLowerChar_def trim_def Let_def

subsection \<open>The cap on the number of matches\<close>

text \<open>
  Claim C3. The scan returns the empty set as soon as the number of ranges pushed exceeds
  \<open>maxMatches\<close>: inside the loop, the accepted occurrence whose range makes \<open>deco\<close> longer
  than the cap ends the scan with \<open>Decoration.none\<close>, whatever was pushed before and
  whatever would follow; hence \<open>getDeco\<close> is empty whenever the ranges of the whole
  viewport outnumber the cap. The result is monotonic in the cap: with a larger
  \<open>maxMatches\<close> and everything else unchanged, a non-empty result stays the same.
\<close>

theorem maxMatches_cap:
  "(boundaryOk check d f t \<and> int (length (pushDeco check rng mt d ds f t)) > mx \<longrightarrow>
      cursorLoop check rng mt d mx ((f, t) # ms) ds = None) \<and>
   (selectionQuery h view = Some (check', mt', q) \<and>
    int (length (emitted h view check' mt' q)) > maxMatches (highlightConfig view) \<longrightarrow>
      snd (getDeco h dl view) = []) \<and>
   (maxMatches (highlightConfig view) \<le> m' \<and> snd (getDeco h dl view) \<noteq> [] \<longrightarrow>
      snd (getDeco h dl' (withMaxMatches view m')) = snd (getDeco h dl view))"
proof (intro conjI impI)
  assume "boundaryOk check d f t \<and> int (length (pushDeco check rng mt d ds f t)) > mx"
  then show "cursorLoop check rng mt d mx ((f, t) # ms) ds = None"
    by (simp add: Let_def)
next
  assume "selectionQuery h view = Some (check', mt', q) \<and>
    int (length (emitted h view check' mt' q)) > maxMatches (highlightConfig view)"
  then show "snd (getDeco h dl view) = []"
    by (simp add: getDeco_Some)
next
  assume a: "maxMatches (highlightConfig view) \<le> m' \<and> snd (getDeco h dl view) \<noteq> []"
  show "snd (getDeco h dl' (withMaxMatches view m')) = snd (getDeco h dl view)"
  proof (cases "selectionQuery h view")
    case None
    then show ?thesis by (simp add: getDeco_snd selectionQuery_withMaxMatches)
  next
    case (Some x)
    obtain c mt0 q0 where x: "x = (c, mt0, q0)" by (cases x)
    have s: "selectionQuery h view = Some (c, mt0, q0)" using Some x by simp
    have s': "selectionQuery h (withMaxMatches view m') = Some (c, mt0, q0)"
      using s by (simp add: selectionQuery_withMaxMatches)
    show ?thesis
      using a unfolding getDeco_Some[OF s] getDeco_Some[OF s']
      by (auto simp add: emitted_withMaxMatches withMaxMatches_simps split: if_splits)
  qed
qed

text \<open>
  The specification's example: a selected string of four characters with three
  occurrences and \<open>maxMatches = 1\<close> gives the empty result; with \<open>maxMatches = 2\<close> the two
  other occurrences are highlighted, and they stay so when the cap is raised to 100.
\<close>

theorem maxMatches_cap_witness:
  "cursorLoop None \<lparr>sel_from = 0, sel_to = 4, sel_head = 4\<rparr> ''string'' ''abcd abcd abcd'' 1
     [(10, 14), (20, 24)] [mkRange (markDeco ''cm-matched-string'' ''abcd'') 5 9] = None \<and>
   snd (getDeco cm_host 0
          (mkView ''abcd abcd abcd'' 0 4 [(0, 14)]
             ((defaultHighlightOptions [])\<lparr>maxMatches := 1\<rparr>))) = [] \<and>
   snd (getDeco cm_host 0
          (withMaxMatches
             (mkView ''abcd abcd abcd'' 0 4 [(0, 14)]
                ((defaultHighlightOptions [])\<lparr>maxMatches := 2\<rparr>)) 100)) =
     [mkRange (markDeco ''cm-matched-string'' ''abcd'') 5 9,
      mkRange (markDeco ''cm-matched-string'' ''abcd'') 10 14]"
proof -
  let ?r = "\<lparr>sel_from = 0, sel_to = 4, sel_head = 4\<rparr>"
  let ?d = "''abcd abcd abcd''"
  let ?x = "mkRange (markDeco ''cm-matched-string'' ''abcd'') 5 9"
  let ?v1 = "mkView ?d 0 4 [(0, 14)] ((defaultHighlightOptions [])\<lparr>maxMatches := 1\<rparr>)"
  let ?v2 = "mkView ?d 0 4 [(0, 14)] ((defaultHighlightOptions [])\<lparr>maxMatches := 2\<rparr>)"
  have h1: "boundaryOk None ?d 10 14 \<and>
            int (length (pushDeco None ?r ''string'' ?d [?x] 10 14)) > 1"
    by code_simp
  have q: "selectionQuery cm_host ?v1 = Some (None, ''string'', ''abcd'')"
    by (simp add: sel_eval)
  have n: "int (length (emitted cm_host ?v1 None ''string'' ''abcd'')) >
             maxMatches (highlightConfig ?v1)"
    by code_simp
  note h2 = conjI[OF q n]
  have h3: "maxMatches (highlightConfig ?v2) \<le> 100 \<and> snd (getDeco cm_host 0 ?v2) \<noteq> []"
    by code_simp
  have v2: "snd (getDeco cm_host 0 ?v2) =
     [mkRange (markDeco ''cm-matched-string'' ''abcd'') 5 9,
      mkRange (markDeco ''cm-matched-string'' ''abcd'') 10 14]"
    by code_simp
  note c1 = maxMatches_cap[where check = None and d = ?d and f = 10 and t = 14 and rng = ?r
      and mt = "''string''" and ds = "[?x]" and mx = 1 and ms = "[(20, 24)]"
      and h = cm_host and view = ?v1 and check' = None and mt' = "''string''"
      and q = "''abcd''" and dl = 0 and m' = 100 and dl' = 0]
  note c2 = maxMatches_cap[where check = None and d = ?d and f = 10 and t = 14 and rng = ?r
      and mt = "''string''" and ds = "[?x]" and mx = 1 and ms = "[(20, 24)]"
      and h = cm_host and view = ?v2 and check' = None and mt' = "''string''"
      and q = "''abcd''" and dl = 0 and m' = 100 and dl' = 0]
  from c1 h1 h2 have a: "cursorLoop None ?r ''string'' ?d 1 [(10, 14), (20, 24)] [?x] = None"
    and b: "snd (getDeco cm_host 0 ?v1) = []"
    by blast+
  from c2 h3 have c: "snd (getDeco cm_host 0 (withMaxMatches ?v2 100)) = snd (getDeco cm_host 0 ?v2)"
    by blast
  from a b c v2 show ?thesis by simp
qed

subsection \<open>Classes of the emitted ranges\<close>

text \<open>
  Claim C1, as amended. The result of \<open>getDeco\<close> is empty or consists of what the
  classification pushes for the accepted occurrences, in order. In word mode (an empty
  main range, the caret) every accepted occurrence is pushed: with class
  \<open>cm-current-word\<close> when it contains the caret, with class \<open>cm-matched-word\<close>
  otherwise. In string mode (a non-empty selection) an accepted occurrence is pushed, with
  class \<open>cm-matched-string\<close>, exactly when it does not overlap the selection; an
  occurrence that overlaps the selection, containing it or not, is not pushed, and no
  range of class \<open>cm-current-string\<close> is ever pushed.
\<close>

theorem selection_classes:
  assumes "selectionQuery h view = Some (check, mt, q)"
  shows "(snd (getDeco h dl view) = [] \<or>
          snd (getDeco h dl view) =
            concat (map (classify check (main (selection view)) mt (doc view))
                        (accepted check (doc view) (occurrences h view q)))) \<and>
         (sel_empty (main (selection view)) \<longrightarrow>
            (\<forall>f t. classify check (main (selection view)) mt (doc view) (f, t) =
               [mkRange (markDeco (if f \<le> sel_from (main (selection view)) \<and>
                                      sel_from (main (selection view)) \<le> t
                                   then ''cm-current-word'' else ''cm-matched-word'')
                           (trim (sliceDoc (doc view) f t))) f t])) \<and>
         (\<not> sel_empty (main (selection view)) \<longrightarrow>
            (\<forall>f t. classify check (main (selection view)) mt (doc view) (f, t) =
               (if sel_to (main (selection view)) \<le> f \<or> t \<le> sel_from (main (selection view))
                then [mkRange (markDeco ''cm-matched-string'' (trim (sliceDoc (doc view) f t))) f t]
                else [])))"
proof -
  note m = selectionQuery_mode[OF assms]
  have 1: "snd (getDeco h dl view) = [] \<or>
          snd (getDeco h dl view) =
            concat (map (classify check (main (selection view)) mt (doc view))
                        (accepted check (doc view) (occurrences h view q)))"
    unfolding getDeco_Some[OF assms] by (simp add: emitted_def)
  have 2: "sel_empty (main (selection view)) \<longrightarrow>
            (\<forall>f t. classify check (main (selection view)) mt (doc view) (f, t) =
               [mkRange (markDeco (if f \<le> sel_from (main (selection view)) \<and>
                                      sel_from (main (selection view)) \<le> t
                                   then ''cm-current-word'' else ''cm-matched-word'')
                           (trim (sliceDoc (doc view) f t))) f t])"
    using m by (auto simp add: classify_word)
  have 3: "\<not> sel_empty (main (selection view)) \<longrightarrow>
            (\<forall>f t. classify check (main (selection view)) mt (doc view) (f, t) =
               (if sel_to (main (selection view)) \<le> f \<or> t \<le> sel_from (main (selection view))
                then [mkRange (markDeco ''cm-matched-string'' (trim (sliceDoc (doc view) f t))) f t]
                else []))"
    using m by (auto simp add: classify_string)
  from 1 2 3 show ?thesis by blast
qed

text \<open>
  The claim as first stated fails in string mode: with \<open>abcd\<close> selected at offsets 0 to 4
  of \<open>abcd abcd\<close>, the occurrence at 0 to 4 is accepted and contains the selection, yet
  the result holds the other occurrence only and no range of class \<open>cm-current-string\<close>.
\<close>

theorem selection_classes_counterexample:
  "(0, 4) \<in> set (accepted None ''abcd abcd''
        (occurrences cm_host (mkView ''abcd abcd'' 0 4 [(0, 9)] (defaultHighlightOptions [])) ''abcd'')) \<and>
   0 \<le> sel_from (main (selection (mkView ''abcd abcd'' 0 4 [(0, 9)] (defaultHighlightOptions [])))) \<and>
   sel_to (main (selection (mkView ''abcd abcd'' 0 4 [(0, 9)] (defaultHighlightOptions [])))) \<le> 4 \<and>
   snd (getDeco cm_host 0 (mkView ''abcd abcd'' 0 4 [(0, 9)] (defaultHighlightOptions []))) =
     [mkRange (markDeco ''cm-matched-string'' ''abcd'') 5 9] \<and>
   mkRange (markDeco ''cm-current-string'' ''abcd'') 0 4 \<notin>
     set (snd (getDeco cm_host 0 (mkView ''abcd abcd'' 0 4 [(0, 9)] (defaultHighlightOptions []))))"
  by code_simp

text \<open>
  The specification's example: \<open>cat cat dog cat\<close> with the caret in the first word gives
  one current and two matched ranges; and the string mode classes on \<open>abcd abcd\<close>.
\<close>

theorem selection_classes_witness:
  "selectionQuery cm_host (mkView ''cat cat dog cat'' 1 1 [(0, 15)] (defaultHighlightOptions ''the,and'')) =
     Some (Some cm_categorize, ''word'', ''cat'') \<and>
   snd (getDeco cm_host 0 (mkView ''cat cat dog cat'' 1 1 [(0, 15)] (defaultHighlightOptions ''the,and''))) =
     [mkRange (markDeco ''cm-current-word'' ''cat'') 0 3,
      mkRange (markDeco ''cm-matched-word'' ''cat'') 4 7,
      mkRange (markDeco ''cm-matched-word'' ''cat'') 12 15] \<and>
   selectionQuery cm_host (mkView ''abcd abcd'' 0 4 [(0, 9)] (defaultHighlightOptions [])) =
     Some (None, ''string'', ''abcd'') \<and>
   classify None \<lparr>sel_from = 0, sel_to = 4, sel_head = 4\<rparr> ''string'' ''abcd abcd'' (0, 4) = [] \<and>
   classify None \<lparr>sel_from = 0, sel_to = 4, sel_head = 4\<rparr> ''string'' ''abcd abcd'' (5, 9) =
     [mkRange (markDeco ''cm-matched-string'' ''abcd'') 5 9]"
proof -
  let ?vw = "mkView ''cat cat dog cat'' 1 1 [(0, 15)] (defaultHighlightOptions ''the,and'')"
  let ?vs = "mkView ''abcd abcd'' 0 4 [(0, 9)] (defaultHighlightOptions [])"
  have qw: "selectionQuery cm_host ?vw = Some (Some cm_categorize, ''word'', ''cat'')"
    by (simp add: sel_eval)
  have qs: "selectionQuery cm_host ?vs = Some (None, ''string'', ''abcd'')"
    by (simp add: sel_eval)
  have ne: "snd (getDeco cm_host 0 ?vw) \<noteq> []" by code_simp
  have oc: "concat (map (classify (Some cm_categorize) (main (selection ?vw)) ''word'' (doc ?vw))
                        (accepted (Some cm_categorize) (doc ?vw) (occurrences cm_host ?vw ''cat''))) =
     [mkRange (markDeco ''cm-current-word'' ''cat'') 0 3,
      mkRange (markDeco ''cm-matched-word'' ''cat'') 4 7,
      mkRange (markDeco ''cm-matched-word'' ''cat'') 12 15]" by code_simp
  from selection_classes[OF qw, of 0] ne oc
  have w: "snd (getDeco cm_host 0 ?vw) =
     [mkRange (markDeco ''cm-current-word'' ''cat'') 0 3,
      mkRange (markDeco ''cm-matched-word'' ''cat'') 4 7,
      mkRange (markDeco ''cm-matched-word'' ''cat'') 12 15]" by simp
  have se: "\<not> sel_empty (main (selection ?vs))" "main (selection ?vs) = \<lparr>sel_from = 0, sel_to = 4, sel_head = 4\<rparr>"
    "doc ?vs = ''abcd abcd''"
    by (simp_all add: mkView_def sel_empty_def)
  from selection_classes[OF qs, of 0] se(1)
  have cl: "\<forall>f t. classify None (main (selection ?vs)) ''string'' (doc ?vs) (f, t) =
               (if sel_to (main (selection ?vs)) \<le> f \<or> t \<le> sel_from (main (selection ?vs))
                then [mkRange (markDeco ''cm-matched-string'' (trim (sliceDoc (doc ?vs) f t))) f t]
                else [])" by blast
  have t: "trim (sliceDoc ''abcd abcd'' 5 9) = ''abcd''" by code_simp
  from cl[rule_format, of 0 4] cl[rule_format, of 5 9]
  have s1: "classify None \<lparr>sel_from = 0, sel_to = 4, sel_head = 4\<rparr> ''string'' ''abcd abcd'' (0, 4) = []"
    and s2: "classify None \<lparr>sel_from = 0, sel_to = 4, sel_head = 4\<rparr> ''string'' ''abcd abcd'' (5, 9) =
     [mkRange (markDeco ''cm-matched-string'' ''abcd'') 5 9]"
    unfolding se(2,3) by (simp_all add: t)
  from qw w qs s1 s2 show ?thesis by blast
qed

subsection \<open>The minimum number of ranges\<close>

text \<open>
  Claim C4, as amended. When the ranges pushed are fewer than the minimum of the mode (2
  for a caret, 1 for a non-empty selection) the result is empty, so a non-empty result
  has at least that many ranges. In particular, for a caret in a word that passes the
  length and ignore-list checks: when the accepted (whole-word) occurrences of the word in
  the viewport are at least 2 and not more than \<open>maxMatches\<close>, the result consists of
  exactly these occurrences, at least 2 ranges; when there are fewer than 2 of them, the
  result is empty.
\<close>

theorem threshold_rule:
  assumes "selectionQuery h view = Some (check, mt, q)"
  shows "(length (emitted h view check mt q) < (if sel_empty (main (selection view)) then 2 else 1) \<longrightarrow>
            snd (getDeco h dl view) = []) \<and>
         (snd (getDeco h dl view) \<noteq> [] \<longrightarrow>
            (if sel_empty (main (selection view)) then 2 else 1) \<le> length (snd (getDeco h dl view))) \<and>
         (sel_empty (main (selection view)) \<longrightarrow>
            (2 \<le> length (accepted check (doc view) (occurrences h view q)) \<and>
             int (length (accepted check (doc view) (occurrences h view q)))
               \<le> maxMatches (highlightConfig view) \<longrightarrow>
               map span (snd (getDeco h dl view)) = accepted check (doc view) (occurrences h view q)) \<and>
            (length (accepted check (doc view) (occurrences h view q)) < 2 \<longrightarrow>
               snd (getDeco h dl view) = []))"
proof -
  note g = getDeco_Some[OF assms, of dl]
  note m = selectionQuery_mode[OF assms]
  have 1: "length (emitted h view check mt q) < (if sel_empty (main (selection view)) then 2 else 1) \<longrightarrow>
            snd (getDeco h dl view) = []"
    unfolding g by simp
  have 2: "snd (getDeco h dl view) \<noteq> [] \<longrightarrow>
            (if sel_empty (main (selection view)) then 2 else 1) \<le> length (snd (getDeco h dl view))"
    unfolding g by (auto simp add: Suc_le_eq not_less split: if_splits)
  have 3: "sel_empty (main (selection view)) \<longrightarrow>
            (2 \<le> length (accepted check (doc view) (occurrences h view q)) \<and>
             int (length (accepted check (doc view) (occurrences h view q)))
               \<le> maxMatches (highlightConfig view) \<longrightarrow>
               map span (snd (getDeco h dl view)) = accepted check (doc view) (occurrences h view q)) \<and>
            (length (accepted check (doc view) (occurrences h view q)) < 2 \<longrightarrow>
               snd (getDeco h dl view) = [])"
  proof
    assume e: "sel_empty (main (selection view))"
    with m obtain c where c: "check = Some c" by auto
    have sp: "map span (emitted h view check mt q) = accepted check (doc view) (occurrences h view q)"
      unfolding emitted_emit c by (rule emit_word_spans[OF e])
    have len: "length (emitted h view check mt q) = length (accepted check (doc view) (occurrences h view q))"
      using arg_cong[OF sp, of length] by simp
    show "(2 \<le> length (accepted check (doc view) (occurrences h view q)) \<and>
             int (length (accepted check (doc view) (occurrences h view q)))
               \<le> maxMatches (highlightConfig view) \<longrightarrow>
               map span (snd (getDeco h dl view)) = accepted check (doc view) (occurrences h view q)) \<and>
            (length (accepted check (doc view) (occurrences h view q)) < 2 \<longrightarrow>
               snd (getDeco h dl view) = [])"
      unfolding g using e sp len by auto
  qed
  from 1 2 3 show ?thesis by blast
qed

text \<open>
  The claim as first stated fails under the cap: in \<open>cat cat\<close> with the caret in the
  first word and \<open>maxMatches = 1\<close> the word occurs twice, yet the result is empty.
\<close>

theorem threshold_rule_counterexample:
  "length (ranges (selection (mkView ''cat cat'' 1 1 [(0, 7)] ((defaultHighlightOptions [])\<lparr>maxMatches := 1\<rparr>)))) = 1 \<and>
   cm_wordAt ''cat cat'' 1 = Some (0, 3) \<and>
   sliceDoc ''cat cat'' 0 3 = ''cat'' \<and>
   minSelectionLength ((defaultHighlightOptions [])\<lparr>maxMatches := 1\<rparr>) \<le> int (length ''cat'') \<and>
   toLowerCase ''cat'' \<notin> set (map (\<lambda>w. trim (toLowerCase w)) (split_on (CHR '','') [])) \<and>
   accepted (Some cm_categorize) ''cat cat''
     (occurrences cm_host (mkView ''cat cat'' 1 1 [(0, 7)] ((defaultHighlightOptions [])\<lparr>maxMatches := 1\<rparr>)) ''cat'')
     = [(0, 3), (4, 7)] \<and>
   snd (getDeco cm_host 0 (mkView ''cat cat'' 1 1 [(0, 7)] ((defaultHighlightOptions [])\<lparr>maxMatches := 1\<rparr>))) = []"
  by code_simp

text \<open>Three occurrences give three ranges; a single occurrence gives none.\<close>

theorem threshold_rule_witness:
  "selectionQuery cm_host (mkView ''cat cat dog cat'' 1 1 [(0, 15)] (defaultHighlightOptions ''the,and'')) =
     Some (Some cm_categorize, ''word'', ''cat'') \<and>
   map span (snd (getDeco cm_host 0 (mkView ''cat cat dog cat'' 1 1 [(0, 15)] (defaultHighlightOptions ''the,and''))))
     = [(0, 3), (4, 7), (12, 15)] \<and>
   selectionQuery cm_host (mkView ''cat dog'' 1 1 [(0, 7)] (defaultHighlightOptions ''the,and'')) =
     Some (Some cm_categorize, ''word'', ''cat'') \<and>
   snd (getDeco cm_host 0 (mkView ''cat dog'' 1 1 [(0, 7)] (defaultHighlightOptions ''the,and''))) = []"
proof -
  let ?v3 = "mkView ''cat cat dog cat'' 1 1 [(0, 15)] (defaultHighlightOptions ''the,and'')"
  let ?v1 = "mkView ''cat dog'' 1 1 [(0, 7)] (defaultHighlightOptions ''the,and'')"
  have q3: "selectionQuery cm_host ?v3 = Some (Some cm_categorize, ''word'', ''cat'')"
    by (simp add: sel_eval)
  have q1: "selectionQuery cm_host ?v1 = Some (Some cm_categorize, ''word'', ''cat'')"
    by (simp add: sel_eval)
  have e3: "sel_empty (main (selection ?v3))" and e1: "sel_empty (main (selection ?v1))"
    by (simp_all add: mkView_def sel_empty_def)
  have a3: "accepted (Some cm_categorize) (doc ?v3) (occurrences cm_host ?v3 ''cat'') = [(0, 3), (4, 7), (12, 15)]"
    by code_simp
  have m3: "int (length [(0::nat, 3::nat), (4, 7), (12, 15)]) \<le> maxMatches (highlightConfig ?v3)"
    by (simp add: mkView_def defaultHighlightOptions_def)
  have a1: "accepted (Some cm_categorize) (doc ?v1) (occurrences cm_host ?v1 ''cat'') = [(0, 3)]"
    by code_simp
  from threshold_rule[OF q3, of 0] e3 m3
  have r3: "map span (snd (getDeco cm_host 0 ?v3)) = [(0, 3), (4, 7), (12, 15)]"
    unfolding a3 by simp
  from threshold_rule[OF q1, of 0] e1
  have r1: "snd (getDeco cm_host 0 ?v1) = []"
    unfolding a1 by simp
  from q3 r3 q1 r1 show ?thesis by blast
qed

subsection \<open>The ends of the document\<close>

text \<open>
  Claim C10. In word mode the ends of the document count as word boundaries: for an
  occurrence that starts at offset 0 the acceptance test is the test of its right
  boundary alone, for one that ends at the length of the document it is the test of its
  left boundary alone, and an occurrence spanning the whole document is accepted. An
  accepted occurrence is among the ranges pushed, and among the ranges of every non-empty
  result.
\<close>

theorem document_boundaries_are_word_boundaries:
  assumes "selectionQuery h view = Some (Some c, mt, q)"
    and "(f, t) \<in> set (occurrences h view q)"
  shows "(f = 0 \<longrightarrow> boundaryOk (Some c) (doc view) f t =
            (t = length (doc view) \<or> c (sliceDoc (doc view) t (t + 1)) \<noteq> Word)) \<and>
         (t = length (doc view) \<longrightarrow> boundaryOk (Some c) (doc view) f t =
            (f = 0 \<or> c (sliceDoc (doc view) (f - 1) f) \<noteq> Word)) \<and>
         (f = 0 \<and> t = length (doc view) \<longrightarrow> boundaryOk (Some c) (doc view) f t) \<and>
         (boundaryOk (Some c) (doc view) f t \<longrightarrow>
            (f, t) \<in> span ` set (emitted h view (Some c) mt q) \<and>
            (snd (getDeco h dl view) \<noteq> [] \<longrightarrow> (f, t) \<in> span ` set (snd (getDeco h dl view))))"
proof -
  note g = getDeco_Some[OF assms(1), of dl]
  note m = selectionQuery_mode[OF assms(1)]
  have e: "sel_empty (main (selection view))" using m by auto
  have sp: "map span (emitted h view (Some c) mt q) = accepted (Some c) (doc view) (occurrences h view q)"
    unfolding emitted_emit by (rule emit_word_spans[OF e])
  have 4: "boundaryOk (Some c) (doc view) f t \<longrightarrow>
            (f, t) \<in> span ` set (emitted h view (Some c) mt q) \<and>
            (snd (getDeco h dl view) \<noteq> [] \<longrightarrow> (f, t) \<in> span ` set (snd (getDeco h dl view)))"
  proof
    assume b: "boundaryOk (Some c) (doc view) f t"
    then have "(f, t) \<in> set (accepted (Some c) (doc view) (occurrences h view q))"
      using assms(2) by (simp add: accepted_def)
    then have in_e: "(f, t) \<in> span ` set (emitted h view (Some c) mt q)"
      using arg_cong[OF sp, of set] by simp
    moreover have "snd (getDeco h dl view) \<noteq> [] \<longrightarrow> (f, t) \<in> span ` set (snd (getDeco h dl view))"
      unfolding g using in_e by (simp split: if_splits)
    ultimately show "(f, t) \<in> span ` set (emitted h view (Some c) mt q) \<and>
            (snd (getDeco h dl view) \<noteq> [] \<longrightarrow> (f, t) \<in> span ` set (snd (getDeco h dl view)))"
      by blast
  qed
  show ?thesis
    using 4 by (auto simp add: boundaryOk_def)
qed

text \<open>In \<open>cat dog cat\<close> the first word starts the document and the last one ends it.\<close>

theorem document_boundaries_are_word_boundaries_witness:
  "selectionQuery cm_host (mkView ''cat dog cat'' 1 1 [(0, 11)] (defaultHighlightOptions ''the,and'')) =
     Some (Some cm_categorize, ''word'', ''cat'') \<and>
   (0, 3) \<in> set (occurrences cm_host (mkView ''cat dog cat'' 1 1 [(0, 11)] (defaultHighlightOptions ''the,and'')) ''cat'') \<and>
   (8, 11) \<in> set (occurrences cm_host (mkView ''cat dog cat'' 1 1 [(0, 11)] (defaultHighlightOptions ''the,and'')) ''cat'') \<and>
   length ''cat dog cat'' = 11 \<and>
   boundaryOk (Some cm_categorize) ''cat dog cat'' 0 3 \<and>
   boundaryOk (Some cm_categorize) ''cat dog cat'' 8 11 \<and>
   (0, 3) \<in> span ` set (snd (getDeco cm_host 0 (mkView ''cat dog cat'' 1 1 [(0, 11)] (defaultHighlightOptions ''the,and'')))) \<and>
   (8, 11) \<in> span ` set (snd (getDeco cm_host 0 (mkView ''cat dog cat'' 1 1 [(0, 11)] (defaultHighlightOptions ''the,and''))))"
proof -
  let ?v = "mkView ''cat dog cat'' 1 1 [(0, 11)] (defaultHighlightOptions ''the,and'')"
  have q: "selectionQuery cm_host ?v = Some (Some cm_categorize, ''word'', ''cat'')"
    by (simp add: sel_eval)
  have o1: "(0, 3) \<in> set (occurrences cm_host ?v ''cat'')"
    and o2: "(8, 11) \<in> set (occurrences cm_host ?v ''cat'')"
    by code_simp+
  have d: "doc ?v = ''cat dog cat''" by (simp add: mkView_def)
  have l: "length ''cat dog cat'' = 11" by simp
  have r1: "cm_categorize (sliceDoc ''cat dog cat'' 3 (3 + 1)) \<noteq> Word"
    and r2: "cm_categorize (sliceDoc ''cat dog cat'' (8 - 1) 8) \<noteq> Word"
    by code_simp+
  have ne: "snd (getDeco cm_host 0 ?v) \<noteq> []" by code_simp
  from document_boundaries_are_word_boundaries[OF q o1, of 0] r1 ne
  have b1: "boundaryOk (Some cm_categorize) ''cat dog cat'' 0 3"
    and s1: "(0, 3) \<in> span ` set (snd (getDeco cm_host 0 ?v))"
    unfolding d by simp_all
  from document_boundaries_are_word_boundaries[OF q o2, of 0] r2 ne l
  have b2: "boundaryOk (Some cm_categorize) ''cat dog cat'' 8 11"
    and s2: "(8, 11) \<in> span ` set (snd (getDeco cm_host 0 ?v))"
    unfolding d by simp_all
  from q o1 o2 l b1 b2 s1 s2 show ?thesis by blast
qed

subsection \<open>The adaptive delay\<close>

text \<open>
  Claim C9. \<open>updateDebouncer\<close> starts from the configured delay, raises it to at least
  300 for a document longer than 50000 and to at least 500 for one longer than 100000, and
  adds 100 when the visible ranges together are longer than 10000. On an update, an edit
  classified as typing is delayed by at least 200 (the larger of 200 and the adaptive
  delay), a pure scroll by at most 100 (the smaller of 100 and the adaptive delay), and
  every other change by the adaptive delay; the clearing timer is always 150.
\<close>

theorem adaptive_delay:
  "(let base = highlightDelay (highlightConfig view);
        n = length (doc view);
        byDoc = (if n > 100000 then max base 500 else if n > 50000 then max base 300 else base)
    in updateDebouncer view =
         (if visibleRangeSize (visibleRanges view) > 10000 then byDoc + 100 else byDoc) \<and>
       base \<le> byDoc \<and> (n > 50000 \<longrightarrow> 300 \<le> byDoc) \<and> (n > 100000 \<longrightarrow> 500 \<le> byDoc)) \<and>
   (isTyping u \<longrightarrow> effectiveDelay dl u = max dl 200 \<and> 200 \<le> effectiveDelay dl u) \<and>
   (isScrolling u \<longrightarrow> effectiveDelay dl u = min dl 100 \<and> effectiveDelay dl u \<le> 100) \<and>
   (\<not> isTyping u \<and> \<not> isScrolling u \<longrightarrow> effectiveDelay dl u = dl) \<and>
   (update dl u \<noteq> None \<longrightarrow>
      map_option recomputeAfter (update dl u) = Some (effectiveDelay dl u) \<and>
      map_option clearAfter (update dl u) = Some 150)"
  by (auto simp add: updateDebouncer_def effectiveDelay_def isTyping_def isScrolling_def
        update_def Let_def)


text \<open>
  A document of 100001 characters with 20000 visible ones is delayed by 600, one of 60000
  characters by 300; typing is delayed by 200 at least, scrolling by 100 at most.
\<close>

theorem adaptive_delay_witness:
  "updateDebouncer (mkView (replicate 100001 (CHR ''a'')) 0 0 [(0, 20000)] (defaultHighlightOptions [])) = 600 \<and>
   updateDebouncer (mkView (replicate 60000 (CHR ''a'')) 0 0 [(0, 2000)] (defaultHighlightOptions [])) = 300 \<and>
   isTyping \<lparr>selectionSet = True, docChanged = True, viewportChanged = False,
             transactions = [\<lambda>e. e = ''input.type'']\<rparr> \<and>
   effectiveDelay 0 \<lparr>selectionSet = True, docChanged = True, viewportChanged = False,
             transactions = [\<lambda>e. e = ''input.type'']\<rparr> = 200 \<and>
   isScrolling \<lparr>selectionSet = False, docChanged = False, viewportChanged = True, transactions = []\<rparr> \<and>
   effectiveDelay 600 \<lparr>selectionSet = False, docChanged = False, viewportChanged = True,
             transactions = []\<rparr> = 100 \<and>
   map_option recomputeAfter
     (update 600 \<lparr>selectionSet = False, docChanged = False, viewportChanged = True, transactions = []\<rparr>)
     = Some 100"
proof -
  let ?big = "mkView (replicate 100001 (CHR ''a'')) 0 0 [(0, 20000)] (defaultHighlightOptions [])"
  let ?mid = "mkView (replicate 60000 (CHR ''a'')) 0 0 [(0, 2000)] (defaultHighlightOptions [])"
  let ?ty = "\<lparr>selectionSet = True, docChanged = True, viewportChanged = False,
             transactions = [\<lambda>e. e = ''input.type'']\<rparr>"
  let ?sc = "\<lparr>selectionSet = False, docChanged = False, viewportChanged = True, transactions = []\<rparr>"
  have ty: "isTyping ?ty" by (simp add: isTyping_def)
  have sc: "isScrolling ?sc" by (simp add: isScrolling_def)
  have up: "update 600 ?sc \<noteq> None" by (simp add: update_def)
  have big: "highlightDelay (highlightConfig ?big) = 0" "length (doc ?big) = 100001"
    "visibleRangeSize (visibleRanges ?big) = 20000"
    by (simp_all add: mkView_def defaultHighlightOptions_def visibleRangeSize_def)
  have mid: "highlightDelay (highlightConfig ?mid) = 0" "length (doc ?mid) = 60000"
    "visibleRangeSize (visibleRanges ?mid) = 2000"
    by (simp_all add: mkView_def defaultHighlightOptions_def visibleRangeSize_def)
  from adaptive_delay[of ?big ?ty 0] ty
  have 1: "updateDebouncer ?big = 600" and 2: "effectiveDelay 0 ?ty = 200"
    unfolding Let_def big by simp_all
  from adaptive_delay[of ?mid ?sc 600] sc
  have 3: "updateDebouncer ?mid = 300" and 4: "effectiveDelay 600 ?sc = 100"
    unfolding Let_def mid by simp_all
  from adaptive_delay[of ?mid ?sc 600] up
  have "map_option recomputeAfter (update 600 ?sc) = Some (effectiveDelay 600 ?sc)"
    by blast
  then have 5: "map_option recomputeAfter (update 600 ?sc) = Some 100"
    by (simp only: 4)
  from 1 2 3 4 5 ty sc show ?thesis by blast
qed

subsection \<open>The search\<close>

lemma scanFrom_sound:
  "(f, t) \<in> set (scanFrom nq pos k xs) \<Longrightarrow>
   nq \<noteq> [] \<and> pos \<le> f \<and> t = f + length nq \<and> f + length nq \<le> pos + length xs \<and>
   take (length nq) (drop (f - pos) xs) = nq"
proof (induction xs arbitrary: pos k)
  case Nil
  then show ?case by simp
next
  case (Cons x xs)
  show ?case
  proof (cases "(f, t) = (pos, pos + length nq) \<and> k = 0 \<and> nq \<noteq> [] \<and> take (length nq) (x # xs) = nq")
    case True
    then have "length (take (length nq) (x # xs)) = length nq" by simp
    then have "length nq \<le> length (x # xs)" by (simp add: min_def split: if_splits)
    then show ?thesis using True by simp
  next
    case False
    then obtain k' where r: "(f, t) \<in> set (scanFrom nq (pos + 1) k' xs)"
      using Cons.prems by (auto split: if_splits)
    from Cons.IH[OF r] have ih: "nq \<noteq> []" "pos + 1 \<le> f" "t = f + length nq"
      "f + length nq \<le> pos + 1 + length xs"
      "take (length nq) (drop (f - (pos + 1)) xs) = nq" by blast+
    have d: "f - pos = Suc (f - (pos + 1))" using ih(2) by simp
    show ?thesis using ih unfolding d by simp
  qed
qed

lemma cm_SearchCursor_sound:
  assumes "(f, t) \<in> set (cm_SearchCursor d q a b caseInsensitive)"
  shows "a \<le> f \<and> t = f + length q \<and> t \<le> b \<and> t \<le> length d \<and>
         caseInsensitive (sliceDoc d f t) = caseInsensitive q"
proof -
  let ?lc = "map toLowerChar"
  let ?xs = "?lc (take (b - a) (drop a d))"
  from assms have "(f, t) \<in> set (scanFrom (?lc q) a 0 ?xs)"
    by (simp add: cm_SearchCursor_def caseInsensitive_def toLowerCase_def sliceDoc_def)
  from scanFrom_sound[OF this]
  have nq: "?lc q \<noteq> []" and af: "a \<le> f" and t0: "t = f + length (?lc q)"
    and len0: "f + length (?lc q) \<le> a + length ?xs"
    and tk0: "take (length (?lc q)) (drop (f - a) ?xs) = ?lc q"
    by blast+
  have t: "t = f + length q" using t0 by simp
  have q1: "1 \<le> length q" using nq by (cases q) simp_all
  have lx: "length ?xs = min (length d - a) (b - a)" by simp
  have tb: "t \<le> b" using len0 af t q1 unfolding lx by simp
  have td: "t \<le> length d" using len0 af t q1 unfolding lx by simp
  have tk: "take (length q) (drop (f - a) ?xs) = ?lc q" using tk0 by simp
  have "?lc (take (length q) (drop f d)) = ?lc q"
  proof -
    have "drop (f - a) (take (b - a) (drop a d)) = take (b - f) (drop f d)"
      using af by (simp add: drop_take)
    moreover have "take (length q) (take (b - f) (drop f d)) = take (length q) (drop f d)"
      using tb t by (simp add: min_def)
    ultimately show ?thesis using tk by (simp add: take_map drop_map)
  qed
  then have "caseInsensitive (sliceDoc d f t) = caseInsensitive q"
    using t by (simp add: caseInsensitive_def toLowerCase_def sliceDoc_def)
  then show ?thesis using af t tb td by simp
qed

lemma cm_SearchCursor_folded:
  "cm_SearchCursor d q a b caseInsensitive =
   cm_SearchCursor (caseInsensitive d) (caseInsensitive q) a b (\<lambda>s. s)"
  by (simp add: cm_SearchCursor_def caseInsensitive_def toLowerCase_def sliceDoc_def
        take_map drop_map)

text \<open>Every occurrence lies in a reported span.\<close>

lemma scanFrom_covers:
  "nq \<noteq> [] \<Longrightarrow> k \<le> i \<Longrightarrow> take (length nq) (drop i xs) = nq \<Longrightarrow>
   \<exists>f t. (f, t) \<in> set (scanFrom nq pos k xs) \<and> f \<le> pos + i \<and> pos + i < t"
proof (induction xs arbitrary: pos k i)
  case Nil
  then show ?case by simp
next
  case (Cons x xs)
  show ?case
  proof (cases "k > 0")
    case True
    then obtain j where i: "i = Suc j" using Cons.prems(2) by (cases i) simp_all
    have "\<exists>f t. (f, t) \<in> set (scanFrom nq (pos + 1) (k - 1) xs) \<and> f \<le> pos + 1 + j \<and> pos + 1 + j < t"
      using Cons.prems True by (intro Cons.IH) (simp_all add: i)
    then show ?thesis using True by (simp add: i)
  next
    case k0: False
    show ?thesis
    proof (cases "take (length nq) (x # xs) = nq")
      case True
      show ?thesis
      proof (cases "i < length nq")
        case True
        then show ?thesis using k0 \<open>take (length nq) (x # xs) = nq\<close> Cons.prems(1)
          by (intro exI[of _ pos] exI[of _ "pos + length nq"]) simp
      next
        case False
        then obtain j where i: "i = Suc j" using Cons.prems(1) by (cases i) simp_all
        have "\<exists>f t. (f, t) \<in> set (scanFrom nq (pos + 1) (length nq - 1) xs) \<and>
                 f \<le> pos + 1 + j \<and> pos + 1 + j < t"
          using Cons.prems False by (intro Cons.IH) (simp_all add: i)
        then show ?thesis using k0 True Cons.prems(1) by (auto simp add: i)
      qed
    next
      case False
      then obtain j where i: "i = Suc j" using Cons.prems(3) by (cases i) simp_all
      have "\<exists>f t. (f, t) \<in> set (scanFrom nq (pos + 1) 0 xs) \<and> f \<le> pos + 1 + j \<and> pos + 1 + j < t"
        using Cons.prems by (intro Cons.IH) (simp_all add: i)
      then show ?thesis using k0 False by (auto simp add: i)
    qed
  qed
qed

lemma cm_SearchCursor_covers:
  assumes "q \<noteq> []" and "a \<le> p" and "p + length q \<le> b" and "p + length q \<le> length d"
    and "caseInsensitive (sliceDoc d p (p + length q)) = caseInsensitive q"
  shows "\<exists>f t. (f, t) \<in> set (cm_SearchCursor d q a b caseInsensitive) \<and> f \<le> p \<and> p < t"
proof -
  let ?lc = "map toLowerChar"
  have "drop (p - a) (take (b - a) (drop a d)) = take (b - p) (drop p d)"
    using assms(2) by (simp add: drop_take)
  moreover have "take (length q) (take (b - p) (drop p d)) = take (length q) (drop p d)"
    using assms(3) by (simp add: min_def)
  ultimately have "take (length (?lc q)) (drop (p - a) (?lc (take (b - a) (drop a d)))) = ?lc q"
    using assms(5) by (simp add: take_map drop_map caseInsensitive_def toLowerCase_def sliceDoc_def)
  from scanFrom_covers[OF _ _ this, of 0 a] assms(1,2)
  show ?thesis
    by (simp add: cm_SearchCursor_def caseInsensitive_def toLowerCase_def sliceDoc_def)
qed

lemma cm_SearchCursor_reported_or_overlapped:
  assumes "q \<noteq> []" and "a \<le> p" and "p + length q \<le> b" and "p + length q \<le> length d"
    and "caseInsensitive (sliceDoc d p (p + length q)) = caseInsensitive q"
  shows "(p, p + length q) \<in> set (cm_SearchCursor d q a b caseInsensitive) \<or>
         (\<exists>f t. (f, t) \<in> set (cm_SearchCursor d q a b caseInsensitive) \<and> f < p \<and> p < t)"
proof -
  from cm_SearchCursor_covers[OF assms] obtain f t where
    m: "(f, t) \<in> set (cm_SearchCursor d q a b caseInsensitive)" and fp: "f \<le> p" and pt: "p < t"
    by blast
  from cm_SearchCursor_sound[OF m] have t: "t = f + length q" by blast
  show ?thesis
  proof (cases "f = p")
    case True
    then show ?thesis using m t by simp
  next
    case False
    then have "f < p" using fp by simp
    then show ?thesis using m pt by blast
  qed
qed

lemma overlap_gives_selfOverlapping:
  assumes "(f, t) \<in> set (cm_SearchCursor d q a b caseInsensitive)" and "f < p" and "p < t"
    and "p + length q \<le> length d"
    and "caseInsensitive (sliceDoc d p (p + length q)) = caseInsensitive q"
  shows "selfOverlapping (caseInsensitive q)"
proof -
  let ?lc = "map toLowerChar"
  let ?n = "length q"
  let ?k = "p - f"
  from cm_SearchCursor_sound[OF assms(1)]
  have t: "t = f + ?n" and eqf0: "caseInsensitive (sliceDoc d f t) = caseInsensitive q" by blast+
  have eqf: "?lc (take ?n (drop f d)) = ?lc q"
    using eqf0 t by (simp add: caseInsensitive_def toLowerCase_def sliceDoc_def)
  have eqp: "?lc (take ?n (drop p d)) = ?lc q"
    using assms(5) by (simp add: caseInsensitive_def toLowerCase_def sliceDoc_def)
  have k: "1 \<le> ?k" "?k < ?n" using assms(2,3) t by simp_all
  have "drop ?k (?lc q) = drop ?k (?lc (take ?n (drop f d)))"
    by (simp only: eqf)
  also have "\<dots> = ?lc (drop ?k (take ?n (drop f d)))"
    by (simp only: drop_map)
  also have "drop ?k (take ?n (drop f d)) = take (?n - ?k) (drop p d)"
    using assms(2) by (simp add: drop_take)
  also have "?lc (take (?n - ?k) (drop p d)) = take (?n - ?k) (?lc (take ?n (drop p d)))"
    by (simp add: take_map min_def)
  also have "\<dots> = take (?n - ?k) (?lc q)" by (simp only: eqp)
  finally have "drop ?k (?lc q) = take (length (?lc q) - ?k) (?lc q)" by simp
  moreover have "?k \<in> set [1..<length (?lc q)]" using k by simp
  ultimately have "\<exists>k \<in> set [1..<length (?lc q)]. drop k (?lc q) = take (length (?lc q) - k) (?lc q)"
    by blast
  then show ?thesis
    unfolding selfOverlapping_def list_ex_iff caseInsensitive_def toLowerCase_def .
qed

lemma occurrences_cm_host:
  "occurrences cm_host view q =
     concat (map (\<lambda>(a, b). cm_SearchCursor (doc view) q a b caseInsensitive) (visibleRanges view))"
  by (simp add: occurrences_def cm_host_def)

text \<open>
  Claim C5. The search of the viewport is case-insensitive. The cursor is run with the
  lower-casing normaliser: every span it reports lies in the range and equals the query
  up to case-folding; it reports exactly what the exact search reports on the
  case-folded document for the case-folded query; and every occurrence in the range that
  equals the query up to case-folding is matched, that is, it lies in a reported span: it
  is reported itself unless it begins inside a span reported before it, and it is always
  reported when the query cannot overlap itself. In word mode an occurrence is accepted
  only if both its boundaries are not followed, respectively preceded, by a character of
  category \<open>Word\<close>, and the ranges of the result are exactly the accepted occurrences
  (none when the cap or the minimum of two empties the result). In string mode every
  occurrence is accepted, and the ranges of the result are the occurrences that do not
  overlap the selection (none when the cap empties the result).
\<close>

theorem case_insensitive_whole_word:
  "(\<forall>f t. (f, t) \<in> set (cm_SearchCursor d q a b caseInsensitive) \<longrightarrow>
      a \<le> f \<and> t = f + length q \<and> t \<le> b \<and> t \<le> length d \<and>
      caseInsensitive (sliceDoc d f t) = caseInsensitive q) \<and>
   cm_SearchCursor d q a b caseInsensitive =
     cm_SearchCursor (caseInsensitive d) (caseInsensitive q) a b (\<lambda>s. s) \<and>
   (\<forall>p. q \<noteq> [] \<and> a \<le> p \<and> p + length q \<le> b \<and> p + length q \<le> length d \<and>
        caseInsensitive (sliceDoc d p (p + length q)) = caseInsensitive q \<longrightarrow>
      (\<exists>f t. (f, t) \<in> set (cm_SearchCursor d q a b caseInsensitive) \<and> f \<le> p \<and> p < t) \<and>
      ((p, p + length q) \<in> set (cm_SearchCursor d q a b caseInsensitive) \<or>
       (\<exists>f t. (f, t) \<in> set (cm_SearchCursor d q a b caseInsensitive) \<and> f < p \<and> p < t)) \<and>
      (\<not> selfOverlapping (caseInsensitive q) \<longrightarrow>
         (p, p + length q) \<in> set (cm_SearchCursor d q a b caseInsensitive))) \<and>
   occurrences cm_host view q' =
     concat (map (\<lambda>(a, b). cm_SearchCursor (doc view) q' a b caseInsensitive) (visibleRanges view)) \<and>
   (selectionQuery h view = Some (check, mt, q') \<longrightarrow>
      (sel_empty (main (selection view)) \<longrightarrow>
         accepted check (doc view) (occurrences h view q') =
           filter (\<lambda>(f, t).
                     (f = 0 \<or> charCategorizer h (sel_head (main (selection view)))
                                (sliceDoc (doc view) (f - 1) f) \<noteq> Word) \<and>
                     (t = length (doc view) \<or>
                      charCategorizer h (sel_head (main (selection view)))
                        (sliceDoc (doc view) t (t + 1)) \<noteq> Word))
                  (occurrences h view q') \<and>
         map span (snd (getDeco h dl view)) =
           (if int (length (accepted check (doc view) (occurrences h view q')))
                 > maxMatches (highlightConfig view) \<or>
               length (accepted check (doc view) (occurrences h view q')) < 2
            then [] else accepted check (doc view) (occurrences h view q'))) \<and>
      (\<not> sel_empty (main (selection view)) \<longrightarrow>
         accepted check (doc view) (occurrences h view q') = occurrences h view q' \<and>
         map span (snd (getDeco h dl view)) =
           (if int (length (filter (\<lambda>(f, t). sel_to (main (selection view)) \<le> f \<or>
                                             t \<le> sel_from (main (selection view)))
                                   (occurrences h view q')))
                 > maxMatches (highlightConfig view) \<or>
               filter (\<lambda>(f, t). sel_to (main (selection view)) \<le> f \<or>
                                 t \<le> sel_from (main (selection view)))
                      (occurrences h view q') = []
            then []
            else filter (\<lambda>(f, t). sel_to (main (selection view)) \<le> f \<or>
                                  t \<le> sel_from (main (selection view)))
                        (occurrences h view q'))))"
proof (intro conjI impI allI)
  fix f t
  assume "(f, t) \<in> set (cm_SearchCursor d q a b caseInsensitive)"
  from cm_SearchCursor_sound[OF this]
  show "a \<le> f" "t = f + length q" "t \<le> b" "t \<le> length d"
    "caseInsensitive (sliceDoc d f t) = caseInsensitive q" by blast+
next
  show "cm_SearchCursor d q a b caseInsensitive =
     cm_SearchCursor (caseInsensitive d) (caseInsensitive q) a b (\<lambda>s. s)"
    by (rule cm_SearchCursor_folded)
next
  fix p
  assume o: "q \<noteq> [] \<and> a \<le> p \<and> p + length q \<le> b \<and> p + length q \<le> length d \<and>
        caseInsensitive (sliceDoc d p (p + length q)) = caseInsensitive q"
  then have o1: "q \<noteq> []" and o2: "a \<le> p" and o3: "p + length q \<le> b"
    and o4: "p + length q \<le> length d"
    and o5: "caseInsensitive (sliceDoc d p (p + length q)) = caseInsensitive q" by blast+
  show "\<exists>f t. (f, t) \<in> set (cm_SearchCursor d q a b caseInsensitive) \<and> f \<le> p \<and> p < t"
    by (rule cm_SearchCursor_covers[OF o1 o2 o3 o4 o5])
  show ro: "(p, p + length q) \<in> set (cm_SearchCursor d q a b caseInsensitive) \<or>
       (\<exists>f t. (f, t) \<in> set (cm_SearchCursor d q a b caseInsensitive) \<and> f < p \<and> p < t)"
    by (rule cm_SearchCursor_reported_or_overlapped[OF o1 o2 o3 o4 o5])
  assume n: "\<not> selfOverlapping (caseInsensitive q)"
  show "(p, p + length q) \<in> set (cm_SearchCursor d q a b caseInsensitive)"
  proof (rule ccontr)
    assume "(p, p + length q) \<notin> set (cm_SearchCursor d q a b caseInsensitive)"
    with ro obtain f t where "(f, t) \<in> set (cm_SearchCursor d q a b caseInsensitive)"
      "f < p" "p < t" by blast
    from overlap_gives_selfOverlapping[OF this o4 o5] n show False by simp
  qed
next
  show "occurrences cm_host view q' =
     concat (map (\<lambda>(a, b). cm_SearchCursor (doc view) q' a b caseInsensitive) (visibleRanges view))"
    by (rule occurrences_cm_host)
next
  assume s: "selectionQuery h view = Some (check, mt, q')" and e: "sel_empty (main (selection view))"
  from selectionQuery_mode[OF s] e
  have c: "check = Some (charCategorizer h (sel_head (main (selection view))))" by simp
  show "accepted check (doc view) (occurrences h view q') =
           filter (\<lambda>(f, t).
                     (f = 0 \<or> charCategorizer h (sel_head (main (selection view)))
                                (sliceDoc (doc view) (f - 1) f) \<noteq> Word) \<and>
                     (t = length (doc view) \<or>
                      charCategorizer h (sel_head (main (selection view)))
                        (sliceDoc (doc view) t (t + 1)) \<noteq> Word))
                  (occurrences h view q')"
    by (simp add: c accepted_def boundaryOk_def)
  have sp: "map span (emitted h view check mt q') = accepted check (doc view) (occurrences h view q')"
    unfolding emitted_emit c by (rule emit_word_spans[OF e])
  have len: "length (emitted h view check mt q') =
             length (accepted check (doc view) (occurrences h view q'))"
    using arg_cong[OF sp, of length] by simp
  show "map span (snd (getDeco h dl view)) =
           (if int (length (accepted check (doc view) (occurrences h view q')))
                 > maxMatches (highlightConfig view) \<or>
               length (accepted check (doc view) (occurrences h view q')) < 2
            then [] else accepted check (doc view) (occurrences h view q'))"
    unfolding getDeco_Some[OF s] using e sp len by simp
next
  assume s: "selectionQuery h view = Some (check, mt, q')" and e: "\<not> sel_empty (main (selection view))"
  from selectionQuery_mode[OF s] e have c: "check = None" by simp
  show "accepted check (doc view) (occurrences h view q') = occurrences h view q'"
    by (simp add: c accepted_None)
  let ?F = "filter (\<lambda>(f, t). sel_to (main (selection view)) \<le> f \<or>
                              t \<le> sel_from (main (selection view)))
                   (occurrences h view q')"
  have sp: "map span (emitted h view check mt q') = ?F"
    unfolding emitted_emit c by (rule emit_string_spans)
  have len: "length (emitted h view check mt q') = length ?F"
    using arg_cong[OF sp, of length] by simp
  have z: "(length ?F < 1) = (?F = [])" by (cases ?F) simp_all
  show "map span (snd (getDeco h dl view)) =
           (if int (length ?F) > maxMatches (highlightConfig view) \<or> ?F = []
            then [] else ?F)"
    unfolding getDeco_Some[OF s] using e sp len z by simp
qed

text \<open>
  The specification's example: the query \<open>Foo\<close> matches \<open>foo\<close>, \<open>FOO\<close> and \<open>FoO\<close>.
  With the caret in \<open>Foo\<close> the occurrence inside \<open>foot\<close> is not accepted; with \<open>Foo\<close>
  selected it is.
\<close>

theorem case_insensitive_whole_word_witness:
  "cm_SearchCursor ''Foo foo FOO FoO fo'' ''Foo'' 0 18 caseInsensitive = [(0, 3), (4, 7), (8, 11), (12, 15)] \<and>
   caseInsensitive (sliceDoc ''Foo foo FOO FoO fo'' 8 11) = caseInsensitive ''Foo'' \<and>
   \<not> selfOverlapping (caseInsensitive ''Foo'') \<and>
   caseInsensitive (sliceDoc ''Foo foo FOO FoO fo'' 12 (12 + length ''Foo'')) = caseInsensitive ''Foo'' \<and>
   (12, 12 + length ''Foo'') \<in> set (cm_SearchCursor ''Foo foo FOO FoO fo'' ''Foo'' 0 18 caseInsensitive) \<and>
   selectionQuery cm_host (mkView ''Foo foo FOO FoO foot'' 1 1 [(0, 20)] (defaultHighlightOptions ''the,and'')) =
     Some (Some cm_categorize, ''word'', ''Foo'') \<and>
   occurrences cm_host (mkView ''Foo foo FOO FoO foot'' 1 1 [(0, 20)] (defaultHighlightOptions ''the,and'')) ''Foo'' =
     [(0, 3), (4, 7), (8, 11), (12, 15), (16, 19)] \<and>
   map span (snd (getDeco cm_host 0 (mkView ''Foo foo FOO FoO foot'' 1 1 [(0, 20)] (defaultHighlightOptions ''the,and'')))) =
     [(0, 3), (4, 7), (8, 11), (12, 15)] \<and>
   selectionQuery cm_host (mkView ''Foo foo FOO FoO foot'' 0 3 [(0, 20)] (defaultHighlightOptions ''the,and'')) =
     Some (None, ''string'', ''Foo'') \<and>
   map span (snd (getDeco cm_host 0 (mkView ''Foo foo FOO FoO foot'' 0 3 [(0, 20)] (defaultHighlightOptions ''the,and'')))) =
     [(4, 7), (8, 11), (12, 15), (16, 19)]"
proof -
  let ?e = "''Foo foo FOO FoO fo''"
  let ?d = "''Foo foo FOO FoO foot''"
  let ?vw = "mkView ?d 1 1 [(0, 20)] (defaultHighlightOptions ''the,and'')"
  let ?vs = "mkView ?d 0 3 [(0, 20)] (defaultHighlightOptions ''the,and'')"
  have c: "cm_SearchCursor ?e ''Foo'' 0 18 caseInsensitive = [(0, 3), (4, 7), (8, 11), (12, 15)]"
    by code_simp
  then have m: "(8, 11) \<in> set (cm_SearchCursor ?e ''Foo'' 0 18 caseInsensitive)"
    by simp
  have no: "\<not> selfOverlapping (caseInsensitive ''Foo'')" by code_simp
  have occ: "''Foo'' \<noteq> [] \<and> (0::nat) \<le> 12 \<and> 12 + length ''Foo'' \<le> 18 \<and>
             12 + length ''Foo'' \<le> length ?e \<and>
             caseInsensitive (sliceDoc ?e 12 (12 + length ''Foo'')) = caseInsensitive ''Foo''"
    by code_simp
  have qw: "selectionQuery cm_host ?vw = Some (Some cm_categorize, ''word'', ''Foo'')"
    by (simp add: sel_eval)
  have qs: "selectionQuery cm_host ?vs = Some (None, ''string'', ''Foo'')"
    by (simp add: sel_eval)
  have ew: "sel_empty (main (selection ?vw))" and es: "\<not> sel_empty (main (selection ?vs))"
    by (simp_all add: mkView_def sel_empty_def)
  have ow: "occurrences cm_host ?vw ''Foo'' = [(0, 3), (4, 7), (8, 11), (12, 15), (16, 19)]"
    by code_simp
  have aw: "accepted (Some cm_categorize) (doc ?vw) (occurrences cm_host ?vw ''Foo'') =
              [(0, 3), (4, 7), (8, 11), (12, 15)]"
    by code_simp
  have fs: "filter (\<lambda>(f, t). sel_to (main (selection ?vs)) \<le> f \<or> t \<le> sel_from (main (selection ?vs)))
              (occurrences cm_host ?vs ''Foo'') = [(4, 7), (8, 11), (12, 15), (16, 19)]"
    by code_simp
  have mw: "maxMatches (highlightConfig ?vw) = 100" and ms: "maxMatches (highlightConfig ?vs) = 100"
    by (simp_all add: mkView_def defaultHighlightOptions_def)
  note t1 = case_insensitive_whole_word[of ?e "''Foo''" 0 18 ?vw "''Foo''" cm_host
      "Some cm_categorize" "''word''" 0]
  note t2 = case_insensitive_whole_word[of ?e "''Foo''" 0 18 ?vs "''Foo''" cm_host
      None "''string''" 0]
  note sound = t1[THEN conjunct1, rule_format, OF m]
  note compl = t1[THEN conjunct2, THEN conjunct2, THEN conjunct1, rule_format, OF occ]
  note accw = t1[THEN conjunct2, THEN conjunct2, THEN conjunct2, THEN conjunct2, rule_format, OF qw,
      THEN conjunct1, rule_format, OF ew, THEN conjunct2]
  note accs = t2[THEN conjunct2, THEN conjunct2, THEN conjunct2, THEN conjunct2, rule_format, OF qs,
      THEN conjunct2, rule_format, OF es, THEN conjunct2]
  have 1: "caseInsensitive (sliceDoc ?e 8 11) = caseInsensitive ''Foo''"
    using sound by simp
  have 2: "(12, 12 + length ''Foo'') \<in> set (cm_SearchCursor ?e ''Foo'' 0 18 caseInsensitive)"
    using compl[THEN conjunct2, THEN conjunct2, rule_format, OF no] .
  have 3: "map span (snd (getDeco cm_host 0 ?vw)) = [(0, 3), (4, 7), (8, 11), (12, 15)]"
    using accw unfolding aw mw by simp
  have 4: "map span (snd (getDeco cm_host 0 ?vs)) = [(4, 7), (8, 11), (12, 15), (16, 19)]"
    using accs unfolding fs ms by simp
  from occ have o5: "caseInsensitive (sliceDoc ?e 12 (12 + length ''Foo'')) = caseInsensitive ''Foo''"
    by blast
  from c 1 no o5 2 qw ow 3 qs 4 show ?thesis by (intro conjI)
qed

section \<open>Properties of the static highlighter\<close>

subsection \<open>A pass that returns has cached what it pushed\<close>

lemma bindE_Inr [simp]: "bindE (Inr x) k = k x"
  by (simp add: bindE_def)

lemma bindE_Inl [simp]: "bindE (Inl e) k = Inl e"
  by (simp add: bindE_def)

lemma bindE_cong: "m = m' \<Longrightarrow> (\<And>x. k x = k' x) \<Longrightarrow> bindE m k = bindE m' k'"
  by (cases m') (simp_all add: bindE_def)

lemma bindE_eq_Inr: "bindE m k = Inr y \<longleftrightarrow> (\<exists>x. m = Inr x \<and> k x = Inr y)"
  by (cases m) simp_all

text \<open>
  When \<open>getDecoration\<close> returns, the cache has only grown and holds the decoration
  returned; when \<open>createRange\<close> returns, the range is the one asked for.
\<close>

lemma getDecoration_Inr:
  assumes "getDecoration type cn a cache = Inr (dc, cache')"
  shows "set cache \<subseteq> set cache' \<and> dc \<in> snd ` set cache'"
proof (cases "map_of cache (poolKey type cn a)")
  case None
  then show ?thesis using assms
    by (auto simp add: getDecoration_def Let_def split: if_splits)
next
  case (Some dc')
  then have "(poolKey type cn a, dc') \<in> set cache" by (rule map_of_SomeD)
  then have "dc' \<in> snd ` set cache" by force
  then show ?thesis using Some assms by (simp add: getDecoration_def Let_def)
qed

lemma createRange_Inr: "createRange dc f t = Inr r \<Longrightarrow> r = mkRange dc f t"
  by (cases dc) (simp_all add: createRange_def split: if_splits)

lemma okStep_refl: "okStep st (Inr st)"
  by (simp add: okStep_def)

lemma okStep_Inl: "okStep st (Inl e)"
  by (simp add: okStep_def)

lemma okStep_bind:
  assumes "okStep st m" and "\<And>st'. okStep st' (k st')"
  shows "okStep st (bindE m k)"
proof (cases m)
  case (Inl e)
  then show ?thesis by (simp add: okStep_Inl)
next
  case (Inr st1)
  from assms(1) Inr have p1: "set (pool st) \<subseteq> set (pool st1)" and c1: "cached st \<longrightarrow> cached st1"
    by (simp_all add: okStep_def)
  from assms(2)[of st1] have 2: "\<forall>st'. k st1 = Inr st' \<longrightarrow>
      set (pool st1) \<subseteq> set (pool st') \<and> (cached st1 \<longrightarrow> cached st')"
    by (simp add: okStep_def)
  show ?thesis
    unfolding okStep_def Inr using p1 c1 2 by auto
qed

text \<open>A step that enlarges the cache and pushes only decorations of the new cache.\<close>

lemma okStep_push:
  assumes "set (pool st) \<subseteq> set (pool st')"
    and "deco ` set (allDecos st') \<subseteq> deco ` set (allDecos st) \<union> snd ` set (pool st')"
  shows "okStep st (Inr st')"
proof -
  have "cached st \<longrightarrow> cached st'"
  proof
    assume "cached st"
    then have "deco ` set (allDecos st) \<subseteq> snd ` set (pool st)" by (simp add: cached_def)
    also have "\<dots> \<subseteq> snd ` set (pool st')" using assms(1) by (rule image_mono)
    finally show "cached st'" using assms(2) unfolding cached_def by blast
  qed
  then show ?thesis using assms(1) by (simp add: okStep_def)
qed

lemma lineMode_ok: "okStep st (lineMode query linePos st)"
  by (auto simp add: lineMode_def allDecos_def intro!: okStep_push)

lemma matchMode_ok: "okStep st (matchMode query str f t st)"
proof (cases "q_mark query = None \<or> markContains query ''match''")
  case False
  then show ?thesis by (auto simp add: matchMode_def okStep_refl)
next
  case True
  show ?thesis
  proof (cases "getDecoration ''mark'' (q_class query) (Some [(''data-contents'', str)]) (pool st)")
    case (Inl e)
    then show ?thesis using True by (auto simp add: matchMode_def okStep_Inl)
  next
    case (Inr x)
    obtain dc cache' where x: "x = (dc, cache')" by (cases x)
    from getDecoration_Inr[OF Inr[unfolded x]]
    have sub: "set (pool st) \<subseteq> set cache'" and mem: "dc \<in> snd ` set cache'" by simp_all
    show ?thesis
    proof (cases "createRange dc f t")
      case (Inl e)
      then show ?thesis using True by (auto simp add: matchMode_def Inr x okStep_Inl)
    next
      case r: (Inr r)
      from createRange_Inr[OF r] have d: "deco r = dc" by (simp add: mkRange_def)
      have "okStep st (Inr (st\<lparr>pool := cache', tokenDecos := tokenDecos st @ [r]\<rparr>))"
        using sub mem d by (intro okStep_push) (auto simp add: allDecos_def)
      then show ?thesis using True by (auto simp add: matchMode_def Inr x r)
    qed
  qed
qed

lemma pushed_widget:
  assumes "(if c then bindE (createRange dc f f) (\<lambda>r. Inr (ws @ [r])) else Inr ws) = Inr ws'"
  shows "deco ` set ws' \<subseteq> deco ` set ws \<union> {dc}"
proof (cases c)
  case False
  then show ?thesis using assms by auto
next
  case True
  with assms obtain r where r: "createRange dc f f = Inr r" and w: "ws' = ws @ [r]"
    by (auto simp add: bindE_eq_Inr)
  from createRange_Inr[OF r] have "deco r = dc" by (simp add: mkRange_def)
  then show ?thesis using w by auto
qed

lemma startEndMode_ok: "okStep st (startEndMode query f t st)"
proof -
  have "set (pool st) \<subseteq> set (pool st') \<and>
        deco ` set (allDecos st') \<subseteq> deco ` set (allDecos st) \<union> snd ` set (pool st')"
    if a: "startEndMode query f t st = Inr st'" for st'
  proof (cases "markContains query ''start'' \<or> markContains query ''end''")
    case False
    then have "st' = st" using a by (auto simp add: startEndMode_def)
    then show ?thesis by auto
  next
    case True
    from a True obtain d1 c1 d2 c2 ws1 ws2 where
      g1: "getDecoration ''widget'' (q_class query @ ''-start'') None (pool st) = Inr (d1, c1)"
      and g2: "getDecoration ''widget'' (q_class query @ ''-end'') None c1 = Inr (d2, c2)"
      and w1: "(if markContains query ''start''
                then bindE (createRange d1 f f) (\<lambda>r. Inr (widgetDecos st @ [r]))
                else Inr (widgetDecos st)) = Inr ws1"
      and w2: "(if markContains query ''end''
                then bindE (createRange d2 t t) (\<lambda>r. Inr (ws1 @ [r]))
                else Inr ws1) = Inr ws2"
      and st': "st' = st\<lparr>pool := c2, widgetDecos := ws2\<rparr>"
      unfolding startEndMode_def by (auto simp add: bindE_eq_Inr)
    from getDecoration_Inr[OF g1] have s1: "set (pool st) \<subseteq> set c1" and m1: "d1 \<in> snd ` set c1"
      by simp_all
    from getDecoration_Inr[OF g2] have s2: "set c1 \<subseteq> set c2" and m2: "d2 \<in> snd ` set c2"
      by simp_all
    have m1': "d1 \<in> snd ` set c2" using m1 s2 by auto
    from pushed_widget[OF w1] pushed_widget[OF w2]
    have "deco ` set ws2 \<subseteq> deco ` set (widgetDecos st) \<union> {d1, d2}" by blast
    then show ?thesis
      using s1 s2 m1' m2 unfolding st' by (auto simp add: allDecos_def)
  qed
  then show ?thesis
    unfolding okStep_def
  proof (intro allI impI)
    fix st'
    assume e: "startEndMode query f t st = Inr st'"
    from \<open>\<And>st'. startEndMode query f t st = Inr st' \<Longrightarrow> _\<close>[OF e]
    have "okStep st (Inr st')" by (intro okStep_push) simp_all
    then show "set (pool st) \<subseteq> set (pool st') \<and> (cached st \<longrightarrow> cached st')"
      by (simp add: okStep_def)
  qed
qed

lemma groupStep_ok: "okStep st (Inr (groupStep linePos st g))"
proof (cases "snd g")
  case None
  then show ?thesis by (simp add: groupStep_def okStep_refl)
next
  case (Some ix)
  obtain gf gt where ix: "ix = (gf, gt)" by (cases ix)
  show ?thesis
  proof (cases "getDecoration ''mark'' (fst g) None (pool st)")
    case (Inl e)
    then show ?thesis by (simp add: groupStep_def Some ix okStep_refl)
  next
    case (Inr x)
    obtain dc cache' where x: "x = (dc, cache')" by (cases x)
    from getDecoration_Inr[OF Inr[unfolded x]]
    have sub: "set (pool st) \<subseteq> set cache'" and mem: "dc \<in> snd ` set cache'" by simp_all
    show ?thesis
    proof (cases "createRange dc (linePos + gf) (linePos + gt)")
      case (Inl e)
      have "okStep st (Inr (st\<lparr>pool := cache'\<rparr>))"
        using sub by (intro okStep_push) (auto simp add: allDecos_def)
      then show ?thesis by (simp add: groupStep_def Some ix Inr x Inl)
    next
      case r: (Inr r)
      from createRange_Inr[OF r] have d: "deco r = dc" by (simp add: mkRange_def)
      have "okStep st (Inr (st\<lparr>pool := cache', groupDecos := groupDecos st @ [r]\<rparr>))"
        using sub mem d by (intro okStep_push) (auto simp add: allDecos_def)
      then show ?thesis by (simp add: groupStep_def Some ix Inr x r)
    qed
  qed
qed

lemma groups_ok: "okStep st (Inr (foldl (groupStep linePos) st gs))"
proof (induction gs arbitrary: st)
  case Nil
  then show ?case by (simp add: okStep_refl)
next
  case (Cons g gs)
  have "okStep st (bindE (Inr (groupStep linePos st g)) (\<lambda>s. Inr (foldl (groupStep linePos) s gs)))"
    by (rule okStep_bind[OF groupStep_ok]) (rule Cons.IH)
  then show ?case by simp
qed

lemma groupMode_ok: "okStep st (groupMode query linePos v st)"
  by (simp add: groupMode_def okStep_refl groups_ok split: option.split)

lemma matchBody_ok: "okStep st (matchBody hst d query v st)"
  unfolding matchBody_def Let_def
  by (auto intro!: okStep_refl okStep_bind lineMode_ok matchMode_ok startEndMode_ok groupMode_ok)

lemma whileLoop_ok: "okStep st (whileLoop hst d query vs st)"
  by (induction vs arbitrary: st) (auto intro!: okStep_refl okStep_bind matchBody_ok)

lemma queryStep_ok: "okStep st (queryStep hst d part query st)"
  by (auto simp add: queryStep_def intro!: okStep_refl whileLoop_ok split: sum.split)

lemma queriesLoop_ok: "okStep st (queriesLoop hst d part qs st)"
  by (induction qs arbitrary: st) (auto intro!: okStep_refl okStep_bind queryStep_ok)

lemma rangesLoop_ok: "okStep st (rangesLoop hst d qs parts st)"
  by (induction parts arbitrary: st) (auto intro!: okStep_refl okStep_bind queriesLoop_ok)

lemma lineEntries_ok: "okStep st (lineEntries es st)"
proof (induction es arbitrary: st)
  case Nil
  then show ?case by (simp add: okStep_refl)
next
  case (Cons e es)
  obtain pos classes where e: "e = (pos, classes)" by (cases e)
  show ?case
  proof (cases "getDecoration ''line'' (joinWith '' '' classes) None (pool st)")
    case (Inl err)
    then show ?thesis by (simp add: e okStep_Inl)
  next
    case (Inr x)
    obtain dc cache' where x: "x = (dc, cache')" by (cases x)
    from getDecoration_Inr[OF Inr[unfolded x]]
    have sub: "set (pool st) \<subseteq> set cache'" and mem: "dc \<in> snd ` set cache'" by simp_all
    show ?thesis
    proof (cases "createRange dc pos pos")
      case (Inl err)
      then show ?thesis by (simp add: e Inr x okStep_Inl)
    next
      case r: (Inr r)
      from createRange_Inr[OF r] have d: "deco r = dc" by (simp add: mkRange_def)
      let ?st1 = "st\<lparr>pool := cache', lineDecos := lineDecos st @ [r]\<rparr>"
      have 1: "okStep st (Inr ?st1)"
        using sub mem d by (intro okStep_push) (auto simp add: allDecos_def)
      have "okStep st (bindE (Inr ?st1) (lineEntries es))"
        by (rule okStep_bind[OF 1]) (rule Cons.IH)
      then show ?thesis by (simp add: e Inr x r)
    qed
  qed
qed

lemma scanPass_ok: "okStep (initState cache) (scanPass hst view cache)"
  unfolding scanPass_def
  by (intro okStep_bind rangesLoop_ok lineEntries_ok)

lemma cached_init: "cached (initState cache)"
  by (simp add: cached_def initState_def allDecos_def)

lemma scanPass_Inr:
  "scanPass hst view cache = Inr st \<Longrightarrow> cached st \<and> set cache \<subseteq> set (pool st)"
  using scanPass_ok[of cache hst view] cached_init[of cache]
  by (auto simp add: okStep_def initState_def)

text \<open>A pass that returns publishes the sorted arrays and leaves the evicted cache.\<close>

lemma static_getDeco_Inr:
  assumes "static_getDeco hst view cache = Inr (r, cache')"
  shows "\<exists>st. scanPass hst view cache = Inr st \<and>
          r = \<lparr>line = sortByFrom (lineDecos st), token = sortByFrom (tokenDecos st),
               group = sortByFrom (groupDecos st), widget = sortByFrom (widgetDecos st)\<rparr> \<and>
          cache' = cleanup (pool st) \<and> cached st \<and> set cache \<subseteq> set (pool st)"
proof -
  from assms obtain st where sp: "scanPass hst view cache = Inr st"
    and r: "r = \<lparr>line = sortByFrom (lineDecos st), token = sortByFrom (tokenDecos st),
               group = sortByFrom (groupDecos st), widget = sortByFrom (widgetDecos st)\<rparr>"
    and c: "cache' = cleanup (pool st)"
    unfolding static_getDeco_def by (auto simp add: bindE_eq_Inr)
  from scanPass_Inr[OF sp] sp r c show ?thesis by blast
qed

subsection \<open>Excluded matches\<close>

lemma matchBody_excluded: "isExcluded hst d v \<Longrightarrow> matchBody hst d query v st = Inr st"
  by (simp add: matchBody_def isExcluded_def Let_def)

lemma matchBody_host:
  "tokenClassAt h1 = tokenClassAt h2 \<Longrightarrow> matchBody h1 d query v st = matchBody h2 d query v st"
  by (simp add: matchBody_def)

lemma whileLoop_host:
  "tokenClassAt h1 = tokenClassAt h2 \<Longrightarrow> whileLoop h1 d query vs st = whileLoop h2 d query vs st"
proof (induction vs arbitrary: st)
  case Nil
  then show ?case by simp
next
  case (Cons v vs)
  then show ?case by (simp add: matchBody_host[of h1 h2] cong: bindE_cong)
qed

lemma whileLoop_filter:
  "whileLoop hst d query (filter (\<lambda>v. \<not> isExcluded hst d v) vs) st = whileLoop hst d query vs st"
  by (induction vs arbitrary: st) (simp_all add: matchBody_excluded cong: bindE_cong)

lemma tokenClassAt_mapCursors: "tokenClassAt (mapCursors F hst) = tokenClassAt hst"
  by (simp add: mapCursors_def)

lemma newCursor_mapCursors:
  "newCursor (mapCursors F hst) d query part = F d (newCursor hst d query part)"
  by (simp add: newCursor_def mapCursors_def)

lemma queryStep_withoutExcluded:
  "queryStep (withoutExcluded hst) d part query st = queryStep hst d part query st"
proof (cases "newCursor hst d query part")
  case (Inl e)
  then show ?thesis
    by (simp add: queryStep_def withoutExcluded_def newCursor_mapCursors)
next
  case (Inr vs)
  have "whileLoop (withoutExcluded hst) d query (filter (\<lambda>v. \<not> isExcluded hst d v) vs) st =
        whileLoop hst d query (filter (\<lambda>v. \<not> isExcluded hst d v) vs) st"
    by (rule whileLoop_host) (simp add: withoutExcluded_def tokenClassAt_mapCursors)
  then show ?thesis
    by (simp add: queryStep_def withoutExcluded_def newCursor_mapCursors Inr whileLoop_filter)
qed

lemma queriesLoop_cong:
  assumes "\<And>query st. queryStep h1 d part query st = queryStep h2 d part query st"
  shows "queriesLoop h1 d part qs st = queriesLoop h2 d part qs st"
  by (induction qs arbitrary: st) (simp_all add: assms cong: bindE_cong)

lemma rangesLoop_cong:
  assumes "\<And>part query st. queryStep h1 d part query st = queryStep h2 d part query st"
  shows "rangesLoop h1 d qs parts st = rangesLoop h2 d qs parts st"
proof (induction parts arbitrary: st)
  case Nil
  then show ?case by simp
next
  case (Cons part parts)
  have "queriesLoop h1 d part qs st = queriesLoop h2 d part qs st" for st
    by (rule queriesLoop_cong) (rule assms)
  then show ?case by (simp add: Cons.IH cong: bindE_cong)
qed

lemma static_getDeco_cong:
  assumes "\<And>d part query st. queryStep h1 d part query st = queryStep h2 d part query st"
  shows "static_getDeco h1 view cache = static_getDeco h2 view cache"
proof -
  have "rangesLoop h1 (s_doc view) (queries view) (s_visibleRanges view) (initState cache) =
        rangesLoop h2 (s_doc view) (queries view) (s_visibleRanges view) (initState cache)"
    by (rule rangesLoop_cong) (rule assms)
  then show ?thesis by (simp add: static_getDeco_def scanPass_def)
qed

text \<open>
  Claim C2. A match whose line start, queried at \<open>line_start + 1\<close>, lies in an excluded
  section is discarded entirely: the loop body returns with all four arrays, the line
  classes and the pool unchanged, so no token, line, group or widget range is emitted for
  it; and the whole scan gives the same four sets (and the same pool) as it gives when
  the cursors never yield the excluded matches at all, for every document, rule set and
  list of visible ranges.
\<close>

theorem excluded_matches_emit_nothing:
  "(isExcluded hst d v \<longrightarrow> matchBody hst d query v st = Inr st) \<and>
   static_getDeco (withoutExcluded hst) view cache = static_getDeco hst view cache"
proof
  show "isExcluded hst d v \<longrightarrow> matchBody hst d query v st = Inr st"
    by (simp add: matchBody_excluded)
  show "static_getDeco (withoutExcluded hst) view cache = static_getDeco hst view cache"
    by (rule static_getDeco_cong) (rule queryStep_withoutExcluded)
qed

text \<open>
  With the second line of the example inside a code block, only the \<open>TODO\<close> of the first
  line gives a token range and a line range.
\<close>

theorem excluded_matches_emit_nothing_witness:
  "isExcluded (scripted_host [] [(8, ''line_HyperMD-codeblock hmd-codeblock'')]) todoDoc
     \<lparr>cv_from = 7, cv_to = 11, cv_groups = None\<rparr> \<and>
   matchBody (scripted_host [] [(8, ''line_HyperMD-codeblock hmd-codeblock'')]) todoDoc todoQuery
     \<lparr>cv_from = 7, cv_to = 11, cv_groups = None\<rparr> (initState []) = Inr (initState []) \<and>
   map_sum id (\<lambda>(r, c). (map span (line r), map span (token r), map span (group r), map span (widget r)))
     (static_getDeco (scripted_host [] [(8, ''line_HyperMD-codeblock hmd-codeblock'')]) todoView []) =
     Inr ([(0, 0)], [(0, 4)], [], []) \<and>
   map_sum id (\<lambda>(r, c). (map span (line r), map span (token r), map span (group r), map span (widget r)))
     (static_getDeco (withoutExcluded (scripted_host [] [(8, ''line_HyperMD-codeblock hmd-codeblock'')])) todoView []) =
     Inr ([(0, 0)], [(0, 4)], [], [])"
proof -
  let ?h = "scripted_host [] [(8, ''line_HyperMD-codeblock hmd-codeblock'')]"
  let ?v = "\<lparr>cv_from = 7, cv_to = 11, cv_groups = None\<rparr>"
  have x: "isExcluded ?h todoDoc ?v" by code_simp
  have r: "map_sum id (\<lambda>(r, c). (map span (line r), map span (token r), map span (group r), map span (widget r)))
     (static_getDeco ?h todoView []) = Inr ([(0, 0)], [(0, 4)], [], [])"
    by code_simp
  note t = excluded_matches_emit_nothing[of ?h todoDoc ?v todoQuery "initState []" todoView "[]"]
  from t x have 1: "matchBody ?h todoDoc todoQuery ?v (initState []) = Inr (initState [])"
    by blast
  from t have 2: "static_getDeco (withoutExcluded ?h) todoView [] = static_getDeco ?h todoView []"
    by blast
  from x 1 r show ?thesis unfolding 2 by blast
qed

subsection \<open>Failures\<close>

lemma groupStep_None: "groupStep linePos st (name, None) = st"
  by (simp add: groupStep_def)

lemma groups_filter:
  "foldl (groupStep linePos) st (filter (\<lambda>g. snd g \<noteq> None) gs) = foldl (groupStep linePos) st gs"
proof (induction gs arbitrary: st)
  case Nil
  then show ?case by simp
next
  case (Cons g gs)
  show ?case
  proof (cases "snd g")
    case None
    then have "groupStep linePos st g = st" by (simp add: groupStep_def)
    then show ?thesis using None Cons.IH by simp
  next
    case (Some ix)
    then show ?thesis using Cons.IH by simp
  qed
qed

lemma groupMode_dropBadGroups:
  "groupMode query linePos (dropBadGroups v) st = groupMode query linePos v st"
  by (cases "cv_groups v") (simp_all add: groupMode_def dropBadGroups_def groups_filter del: not_None_eq)

lemma matchBody_dropBadGroups:
  "matchBody hst d query (dropBadGroups v) st = matchBody hst d query v st"
proof -
  have f: "cv_from (dropBadGroups v) = cv_from v" "cv_to (dropBadGroups v) = cv_to v"
    by (simp_all add: dropBadGroups_def)
  show ?thesis
    unfolding matchBody_def f groupMode_dropBadGroups ..
qed

lemma whileLoop_dropBadGroups:
  "whileLoop hst d query (map dropBadGroups vs) st = whileLoop hst d query vs st"
  by (induction vs arbitrary: st) (simp_all add: matchBody_dropBadGroups cong: bindE_cong)

lemma queryStep_failed:
  "newCursor hst d query part = Inl e \<Longrightarrow> queryStep hst d part query st = Inr st"
  by (simp add: queryStep_def)

lemma queryStep_recovered:
  "queryStep (recovered hst) d part query st = queryStep hst d part query st"
proof (cases "newCursor hst d query part")
  case (Inl e)
  then show ?thesis
    by (simp add: queryStep_def recovered_def newCursor_mapCursors)
next
  case (Inr vs)
  have "whileLoop (recovered hst) d query (map dropBadGroups vs) st =
        whileLoop hst d query (map dropBadGroups vs) st"
    by (rule whileLoop_host) (simp add: recovered_def tokenClassAt_mapCursors)
  then show ?thesis
    by (simp add: queryStep_def recovered_def newCursor_mapCursors Inr whileLoop_dropBadGroups)
qed

text \<open>
  What the two \<open>try\<close> blocks do: a cursor whose construction throws skips that pair of
  range and rule only, the remaining rules being processed from the same state; a group
  without indices is skipped alone; and the scan gives what it gives on the host where
  every failed construction is a cursor without values and every group without indices
  is absent.
\<close>

lemma failures_are_skipped:
  "static_getDeco (recovered hst) view cache = static_getDeco hst view cache \<and>
   (newCursor hst d query part = Inl e \<longrightarrow>
      queryStep hst d part query st = Inr st \<and>
      queriesLoop hst d part (query # qs) st = queriesLoop hst d part qs st) \<and>
   foldl (groupStep linePos) st ((name, None) # gs) = foldl (groupStep linePos) st gs"
proof (intro conjI impI)
  show "static_getDeco (recovered hst) view cache = static_getDeco hst view cache"
    by (rule static_getDeco_cong) (rule queryStep_recovered)
  show "foldl (groupStep linePos) st ((name, None) # gs) = foldl (groupStep linePos) st gs"
    by (simp add: groupStep_None)
next
  assume a: "newCursor hst d query part = Inl e"
  then show "queryStep hst d part query st = Inr st" by (rule queryStep_failed)
  then show "queriesLoop hst d part (query # qs) st = queriesLoop hst d part qs st" by simp
qed

text \<open>
  A rule whose pattern does not compile is skipped, the rules after it are scanned, and
  of the two groups of the match only the one with indices gives a range.
\<close>

lemma failures_are_skipped_example:
  "newCursor failingHost ''b a b a'' badQuery (0, 7) = Inl (Error ''Invalid regular expression'') \<and>
   queryStep failingHost ''b a b a'' (0, 7) badQuery (initState []) = Inr (initState []) \<and>
   map_sum id (\<lambda>(r, c). (map span (line r), map span (token r), map span (group r), map span (widget r)))
     (static_getDeco failingHost
        \<lparr>s_doc = ''b a b a'', s_visibleRanges = [(0, 7)], queries = [badQuery, groupQuery, plainQuery]\<rparr> []) =
     Inr ([], [(2, 3), (6, 7)], [(2, 3)], [])"
  by code_simp

text \<open>
  Claim C8 says that no error is ever surfaced to the caller and that the scan always
  returns its four sets. The code does not keep this. A rule without mark modes whose
  regular expression matches the empty string, such as \<open>x*\<close> on the document \<open>ab\<close>,
  makes \<open>createRange\<close> throw for the empty token range; the call is outside both \<open>try\<close>
  blocks, so the exception leaves \<open>getDeco\<close>. The path of the named groups does catch
  the same exception: an empty group is skipped, its decoration staying in the cache.
\<close>

theorem scan_throws_on_empty_match:
  "static_getDeco emptyMatchHost emptyMatchView [] =
     Inl (Error ''Mark decorations may not be empty'') \<and>
   groupStep 0 (initState []) (''k'', Some (1, 1)) =
     (initState [])\<lparr>pool := [(''mark-k-{}'', Mark ''k'' None)]\<rparr>"
  by code_simp

subsection \<open>Order and cache\<close>

lemma sortByFrom_sorted: "sorted (map from_pos (sortByFrom xs))"
  by (simp add: sortByFrom_def)

lemma sortByFrom_idem: "sortByFrom (sortByFrom xs) = sortByFrom xs"
  unfolding sortByFrom_def by (rule sort_key_id_if_sorted) simp



text \<open>
  Claim C6. After every pass of the static scan that returns, each of the four published
  sets (line, group, token, widget) is sorted ascending by its start offset, and sorting
  a published set again gives the same sequence.
\<close>

theorem published_sets_sorted:
  assumes "static_getDeco hst view cache = Inr (r, cache')"
  shows "sorted (map from_pos (line r)) \<and> sorted (map from_pos (group r)) \<and>
         sorted (map from_pos (token r)) \<and> sorted (map from_pos (widget r)) \<and>
         sortByFrom (line r) = line r \<and> sortByFrom (group r) = group r \<and>
         sortByFrom (token r) = token r \<and> sortByFrom (widget r) = widget r"
proof -
  from static_getDeco_Inr[OF assms] obtain st where
    sp: "scanPass hst view cache = Inr st"
    and r: "r = \<lparr>line = sortByFrom (lineDecos st), token = sortByFrom (tokenDecos st),
             group = sortByFrom (groupDecos st), widget = sortByFrom (widgetDecos st)\<rparr>"
    and c': "cache' = cleanup (pool st)"
    and c: "cached st" and sub: "set cache \<subseteq> set (pool st)" by blast
  show ?thesis
    unfolding r by (simp add: sortByFrom_sorted sortByFrom_idem)
qed

text \<open>
  Two rules whose matches interleave: the token ranges are pushed rule by rule and
  published in the order of their offsets.
\<close>

theorem published_sets_sorted_witness:
  "map_sum id (\<lambda>st. map span (tokenDecos st))
     (scanPass (scripted_host [] [])
        \<lparr>s_doc = ''b a b a'', s_visibleRanges = [(0, 7)], queries = [plainQuery, widgetQuery]\<rparr> []) =
     Inr [(2, 3), (6, 7), (0, 1), (4, 5)] \<and>
   map_sum id (\<lambda>(r, c). (map span (token r), map span (widget r)))
     (static_getDeco (scripted_host [] [])
        \<lparr>s_doc = ''b a b a'', s_visibleRanges = [(0, 7)], queries = [plainQuery, widgetQuery]\<rparr> []) =
     Inr ([(0, 1), (2, 3), (4, 5), (6, 7)], [(0, 0), (1, 1), (4, 4), (5, 5)]) \<and>
   sorted (map fst [(0::nat, 1::nat), (2, 3), (4, 5), (6, 7)])"
proof -
  let ?view = "\<lparr>s_doc = ''b a b a'', s_visibleRanges = [(0, 7)], queries = [plainQuery, widgetQuery]\<rparr>"
  have p: "map_sum id (\<lambda>st. map span (tokenDecos st)) (scanPass (scripted_host [] []) ?view []) =
     Inr [(2, 3), (6, 7), (0, 1), (4, 5)]"
    by code_simp
  have r: "map_sum id (\<lambda>(r, c). (map span (token r), map span (widget r)))
     (static_getDeco (scripted_host [] []) ?view []) =
     Inr ([(0, 1), (2, 3), (4, 5), (6, 7)], [(0, 0), (1, 1), (4, 4), (5, 5)])"
    by code_simp
  from r obtain res c where g: "static_getDeco (scripted_host [] []) ?view [] = Inr (res, c)"
    by (cases "static_getDeco (scripted_host [] []) ?view []") auto
  from published_sets_sorted[OF g] have s: "sorted (map from_pos (token res))" by blast
  from r have "map span (token res) = [(0, 1), (2, 3), (4, 5), (6, 7)]"
    unfolding g by simp
  then have "map fst (map span (token res)) = map fst [(0::nat, 1::nat), (2, 3), (4, 5), (6, 7)]"
    by (rule arg_cong)
  then have "map from_pos (token res) = map fst [(0::nat, 1::nat), (2, 3), (4, 5), (6, 7)]"
    by (simp add: span_def comp_def)
  with s have "sorted (map fst [(0::nat, 1::nat), (2, 3), (4, 5), (6, 7)])" by simp
  with p r show ?thesis by (intro conjI)
qed



end
